theory Spec2Isabelle
  imports Complex_Main "HOL-Library.Word"
begin

unbundle bit_operations_syntax

section \<open>Makeup.cpp: data model\<close>

text \<open>
  The embedding follows \<^verbatim>\<open>src/jni/venus/Makeup.cpp\<close>. Conventions:
  \<^item> \<^verbatim>\<open>uint8_t\<close> and \<^verbatim>\<open>uint32_t\<close> are words, so their arithmetic wraps as in C++;
  \<^item> \<^verbatim>\<open>int\<close> used for sizes, coordinates and loop counters is \<open>int\<close> (image sizes are
    far below \<open>2^31\<close>, no claim depends on overflow of a coordinate);
  \<^item> \<^verbatim>\<open>float\<close> and \<^verbatim>\<open>double\<close> are idealised as \<open>real\<close>: rounding of floating point
    operations is not modelled;
  \<^item> \<^verbatim>\<open>assert\<close> and the debug checks of \<^verbatim>\<open>cv::Mat::at\<close> are fatal: they are the
    \<open>Inl\<close> results of the model.
\<close>

type_synonym uint8_t = "8 word"
type_synonym uint32_t = "32 word"

datatype error = AssertionFailed | BadAccess

text \<open>OpenCV's element type of a matrix: a depth and a number of channels.\<close>

datatype depth = CV_8U | CV_8S | CV_16U | CV_16S | CV_32S | CV_32F | CV_64F

type_synonym mat_type = "depth \<times> nat"

abbreviation CV_8UC1 :: mat_type where "CV_8UC1 \<equiv> (CV_8U, 1)"
abbreviation CV_8UC3 :: mat_type where "CV_8UC3 \<equiv> (CV_8U, 3)"
abbreviation CV_8UC4 :: mat_type where "CV_8UC4 \<equiv> (CV_8U, 4)"
abbreviation CV_32FC3 :: mat_type where "CV_32FC3 \<equiv> (CV_32F, 3)"
abbreviation CV_32FC4 :: mat_type where "CV_32FC4 \<equiv> (CV_32F, 4)"

text \<open>
  One channel value of a pixel. Only 8-bit unsigned and 32-bit float samples are read or
  written by Makeup.cpp; a pixel (\<^verbatim>\<open>cv::Vec\<close>) is the list of its channel values.
\<close>

datatype sample = U8 uint8_t | F32 real

type_synonym pixel = "sample list"

text \<open>
  \<^verbatim>\<open>cv::Mat\<close>, two-dimensional and continuous: the pixels in row-major order, pixel
  \<open>(r, c)\<close> at index \<open>r * cols + c\<close>.
\<close>

record Mat =
  rows :: int
  cols :: int
  mtype :: mat_type
  data :: "pixel list"

fun sample_depth :: "sample \<Rightarrow> depth" where
  "sample_depth (U8 b) = CV_8U"
| "sample_depth (F32 v) = CV_32F"

definition pixel_ok :: "mat_type \<Rightarrow> pixel \<Rightarrow> bool" where
  "pixel_ok t p = (length p = snd t \<and> list_all (\<lambda>s. sample_depth s = fst t) p)"

definition wf_Mat :: "Mat \<Rightarrow> bool" where
  "wf_Mat m = (0 \<le> rows m \<and> 0 \<le> cols m \<and> int (length (data m)) = rows m * cols m
     \<and> list_all (pixel_ok (mtype m)) (data m))"

definition Mat_empty :: "Mat \<Rightarrow> bool" where
  "Mat_empty m = (rows m * cols m = 0)"

definition inside :: "Mat \<Rightarrow> int \<Rightarrow> int \<Rightarrow> bool" where
  "inside m r c = (0 \<le> r \<and> r < rows m \<and> 0 \<le> c \<and> c < cols m)"

definition px :: "Mat \<Rightarrow> int \<Rightarrow> int \<Rightarrow> pixel" where
  "px m r c = data m ! nat (r * cols m + c)"

text \<open>
  \<^verbatim>\<open>m.at<T>(r, c)\<close> for reading: the debug assertions of OpenCV (indices in range,
  element type as requested) are the error result.
\<close>

definition Mat_at :: "mat_type \<Rightarrow> Mat \<Rightarrow> int \<Rightarrow> int \<Rightarrow> error + pixel" where
  "Mat_at t m r c = (if mtype m = t \<and> inside m r c then Inr (px m r c) else Inl BadAccess)"

text \<open>Assignment through the reference returned by \<^verbatim>\<open>m.at<T>(r, c)\<close>.\<close>

definition Mat_put :: "mat_type \<Rightarrow> Mat \<Rightarrow> int \<Rightarrow> int \<Rightarrow> pixel \<Rightarrow> error + Mat" where
  "Mat_put t m r c v = (if mtype m = t \<and> inside m r c
     then Inr (m\<lparr>data := (data m)[nat (r * cols m + c) := v]\<rparr>) else Inl BadAccess)"

text \<open>
  Loops. \<^verbatim>\<open>for(int i = lo; i < hi; ++i) body\<close> over a state \<open>s\<close>: \<open>for_loop\<close> when the
  body cannot fail, \<open>for_loop_E\<close> when it can, stopping at the first fatal error.
\<close>

function for_loop :: "int \<Rightarrow> int \<Rightarrow> (int \<Rightarrow> 's \<Rightarrow> 's) \<Rightarrow> 's \<Rightarrow> 's" where
  "for_loop i hi body s = (if i < hi then for_loop (i + 1) hi body (body i s) else s)"
  by pat_completeness auto
termination
  by (relation "measure (\<lambda>(i, hi, body, s). nat (hi - i))") auto

declare for_loop.simps [simp del]

function for_loop_E :: "int \<Rightarrow> int \<Rightarrow> (int \<Rightarrow> 's \<Rightarrow> error + 's) \<Rightarrow> 's \<Rightarrow> error + 's" where
  "for_loop_E i hi body s =
     (if i < hi then (case body i s of Inl e \<Rightarrow> Inl e | Inr s' \<Rightarrow> for_loop_E (i + 1) hi body s')
      else Inr s)"
  by pat_completeness auto
termination
  by (relation "measure (\<lambda>(i, hi, body, s). nat (hi - i))") auto

declare for_loop_E.simps [simp del]

section \<open>Overlay packer\<close>

text \<open>
  \<^verbatim>\<open>USE_BGRA_LAYOUT\<close> is a macro that Makeup.cpp takes from one of the venus headers
  it includes, none of which is among the sources: it is the first parameter of the
  functions that test it.
\<close>

definition pack_alpha :: "uint32_t \<Rightarrow> uint8_t \<Rightarrow> uint8_t" where
  "pack_alpha color m = ucast ((drop_bit 24 color * ucast m + 127) div 255)"

definition pack_pixel :: "bool \<Rightarrow> uint32_t \<Rightarrow> uint8_t \<Rightarrow> uint32_t" where
  "pack_pixel USE_BGRA_LAYOUT color m =
     (let alpha = pack_alpha color m in
      if USE_BGRA_LAYOUT
      then (drop_bit 16 color AND 0xFF) OR (color AND 0x00FF00) OR push_bit 16 (color AND 0xFF)
             OR push_bit 24 (ucast alpha)
      else (color AND 0x00FFFFFF) OR push_bit 24 (ucast alpha))"

text \<open>
  The two views of the pixel memory: \<^verbatim>\<open>mask.data\<close> as bytes, and the 4-channel image as
  \<^verbatim>\<open>uint32_t\<close> (\<^verbatim>\<open>reinterpret_cast\<close>, little endian: channel 0 is the low byte).
\<close>

fun byte_of_pixel :: "pixel \<Rightarrow> uint8_t" where
  "byte_of_pixel [U8 b] = b"
| "byte_of_pixel p = 0"

definition Vec4b_of_uint32 :: "uint32_t \<Rightarrow> pixel" where
  "Vec4b_of_uint32 w = [U8 (ucast w), U8 (ucast (drop_bit 8 w)), U8 (ucast (drop_bit 16 w)),
     U8 (ucast (drop_bit 24 w))]"

fun uint32_of_Vec4b :: "pixel \<Rightarrow> uint32_t" where
  "uint32_of_Vec4b [U8 b0, U8 b1, U8 b2, U8 b3] =
     ucast b0 OR push_bit 8 (ucast b1) OR push_bit 16 (ucast b2) OR push_bit 24 (ucast b3)"
| "uint32_of_Vec4b p = 0"

text \<open>
  \<^verbatim>\<open>Makeup::pack\<close>. The image is allocated uninitialised and every element is written by
  the loop; the model starts from zeros.
\<close>

definition pack :: "bool \<Rightarrow> Mat \<Rightarrow> uint32_t \<Rightarrow> error + Mat" where
  "pack USE_BGRA_LAYOUT msk color =
     (if mtype msk \<noteq> CV_8UC1 then Inl AssertionFailed
      else
        let len = rows msk * cols msk;
            mask_data = map byte_of_pixel (data msk);
            image_data = for_loop 0 len
              (\<lambda>i image_data.
                 image_data[nat i := pack_pixel USE_BGRA_LAYOUT color (mask_data ! nat i)])
              (replicate (nat len) 0)
        in Inr \<lparr>rows = rows msk, cols = cols msk, mtype = CV_8UC4,
                data = map Vec4b_of_uint32 image_data\<rparr>)"

section \<open>Shape generators\<close>

datatype Point2f = Point2f (pt_x: real) (pt_y: real)

datatype Point2i = Point2i (pti_x: int) (pti_y: int)

datatype Vec4f = Vec4f (v0: real) (v1: real) (v2: real) (v3: real)

definition pt_add :: "Point2f \<Rightarrow> Point2f \<Rightarrow> Point2f" where
  "pt_add a b = Point2f (pt_x a + pt_x b) (pt_y a + pt_y b)"

definition pt_sub :: "Point2f \<Rightarrow> Point2f \<Rightarrow> Point2f" where
  "pt_sub a b = Point2f (pt_x a - pt_x b) (pt_y a - pt_y b)"

definition pt_scale :: "real \<Rightarrow> Point2f \<Rightarrow> Point2f" where
  "pt_scale k a = Point2f (k * pt_x a) (k * pt_y a)"

definition pt_div :: "Point2f \<Rightarrow> real \<Rightarrow> Point2f" where
  "pt_div a k = Point2f (pt_x a / k) (pt_y a / k)"

definition atan2 :: "real \<Rightarrow> real \<Rightarrow> real" where
  "atan2 y x =
     (if 0 < x then arctan (y / x)
      else if x < 0 \<and> 0 \<le> y then arctan (y / x) + pi
      else if x < 0 then arctan (y / x) - pi
      else if 0 < y then pi / 2
      else if y < 0 then - pi / 2
      else 0)"

text \<open>
  \<^verbatim>\<open>Makeup::createHeartShape\<close>: the body of the loop for sample \<open>i\<close>, and the loop over
  the vector of \<open>N = 32\<close> points (a \<^verbatim>\<open>std::vector<Point2f>(N)\<close> starts as zeros).
\<close>

definition heart_sample :: "Point2f \<Rightarrow> real \<Rightarrow> real \<Rightarrow> real \<Rightarrow> int \<Rightarrow> Point2f" where
  "heart_sample center radius cosa sina i =
     (let t = real_of_int i * (2 * pi / 32);
          sint = sin t; cost = cos t;
          sin2t = 2 * sint * cost; cos2t = cost * cost - sint * sint;
          cos3t = cost * cos2t - sint * sin2t;
          cos4t = cos2t * cos2t - sin2t * sin2t;
          x = sint * sint * sint;
          y = (13 * cost - 5 * cos2t - 2 * cos3t - cos4t) / (- 16);
          rotated = Point2f (x * cosa - y * sina) (x * sina + y * cosa)
      in pt_add center (pt_scale radius rotated))"

definition createHeartShape :: "Point2f \<Rightarrow> real \<Rightarrow> real \<Rightarrow> Point2f list" where
  "createHeartShape center radius angle =
     (let cosa = cos angle; sina = sin angle in
      for_loop 0 32 (\<lambda>i heart. heart[nat i := heart_sample center radius cosa sina i])
        (replicate 32 (Point2f 0 0)))"

text \<open>
  The collaborators of \<^verbatim>\<open>Makeup::createPolygon\<close> that live in other files of venus
  (\<^verbatim>\<open>Feature.h\<close>, \<^verbatim>\<open>Scalar.h\<close>): they and the constant \<^verbatim>\<open>Feature::COUNT\<close> are
  parameters of the model. Every landmark index used below is at most 62.
\<close>

record venus =
  COUNT :: nat
  calculateBlushPolygon :: "Point2f list \<Rightarrow> bool \<Rightarrow> Point2f list"
  getSymmetryAxis :: "Point2f list \<Rightarrow> Vec4f"
  distance :: "Point2f \<Rightarrow> Vec4f \<Rightarrow> real"
  catmullRomSpline :: "real \<Rightarrow> Point2f \<Rightarrow> Point2f \<Rightarrow> Point2f \<Rightarrow> Point2f \<Rightarrow> Point2f"

datatype BlushShape = DEFAULT | DISK | OVAL | TRIANGLE | HEART | SEAGULL

definition disk_sample :: "Point2f \<Rightarrow> real \<Rightarrow> int \<Rightarrow> Point2f" where
  "disk_sample center radius i =
     (let t = real_of_int i / (2 * pi) * 12
      in pt_add center (pt_scale radius (Point2f (cos t) (sin t))))"

definition seagull_step :: "Point2f list \<Rightarrow> nat list \<Rightarrow> Point2f \<Rightarrow> int \<Rightarrow> Point2f list
    \<Rightarrow> Point2f list" where
  "seagull_step points knot down i seagull =
     (let carriage = points ! (knot ! 0);
          point = points ! (knot ! nat i);
          d = pt_sub carriage point;
          dot = pt_x d * pt_x down + pt_y d * pt_y down
      in (seagull[nat i := pt_add point (pt_scale 3 (pt_scale dot down))])
           [nat (10 - i) := pt_add point (pt_scale 2 (pt_scale dot down))])"

definition createPolygon :: "venus \<Rightarrow> Point2f list \<Rightarrow> BlushShape \<Rightarrow> bool
    \<Rightarrow> error + Point2f list" where
  "createPolygon V points shape right =
     (if length points \<noteq> COUNT V then Inl AssertionFailed
      else
        let p02 = points ! (if right then 2 else 10);
            p62 = points ! (if right then 62 else 58);
            p00 = points ! (if right then 0 else 12);
            p01 = points ! (if right then 1 else 11);
            p33 = points ! (if right then 33 else 32);
            p41 = points ! (if right then 41 else 51);
            p61 = points ! (if right then 61 else 59);
            p03 = points ! (if right then 3 else 9)
        in case shape of
          DEFAULT \<Rightarrow> Inr (calculateBlushPolygon V points right)
        | DISK \<Rightarrow>
            (let center = Point2f ((pt_x p62 + pt_x p02) / 2) (pt_y p62);
                 radius = \<bar>pt_x p62 - pt_x p02\<bar> / 2
             in Inr (for_loop 0 12 (\<lambda>i circle. circle[nat i := disk_sample center radius i])
                       (replicate 12 (Point2f 0 0))))
        | OVAL \<Rightarrow>
            Inr [pt_div (pt_add p00 (pt_scale 2 p01)) 3,
                 p01,
                 pt_div (pt_add (pt_scale 2 p01) p02) 3,
                 pt_div (pt_add p01 (pt_scale 2 p02)) 3,
                 Point2f (pt_x p33) (pt_y p61),
                 p62,
                 Point2f (pt_x p41) (pt_y (points ! 53))]
        | TRIANGLE \<Rightarrow>
            (let down0 = pt_sub (points ! 56) (points ! 53);
                 down = pt_div down0 (pt_x down0 * pt_x down0 + pt_y down0 * pt_y down0)
             in Inr [Point2f (pt_x p33) (pt_y p62),
                     pt_div (pt_add p02 p03) 2,
                     p02,
                     catmullRomSpline V (2 / 3) p00 p01 p02 p03,
                     catmullRomSpline V (1 / 3) p00 p01 p02 p03,
                     p01,
                     pt_div (pt_add p00 (pt_scale 2 p01)) 3])
        | HEART \<Rightarrow>
            (let p_x = pt_div (pt_add p62 p02) 2;
                 p_y = pt_div (pt_add (points ! 53) (pt_scale 2 (points ! 56))) 3;
                 line = getSymmetryAxis V points;
                 radius = \<bar>distance V p62 line - distance V p02 line\<bar>;
                 down = Point2f (v0 line) (v1 line);
                 d = distance V p_x line;
                 N = (if right then Point2f (v1 line) (- v0 line)
                      else Point2f (- v1 line) (v0 line));
                 center = pt_add p_y (pt_scale d N);
                 angle = atan2 (pt_y down) (pt_x down) - pi / 2
             in Inr (createHeartShape center radius angle))
        | SEAGULL \<Rightarrow>
            (let knot_r = [42, 22, 23, 24, 25];
                 knot_l = [43, 29, 30, 31, 26];
                 knot = (if right then knot_r else knot_l);
                 down0 = pt_sub (points ! 56) (points ! 53);
                 down = pt_div down0 (sqrt (pt_x down0 * pt_x down0 + pt_y down0 * pt_y down0));
                 seagull0 = ((replicate 10 (Point2f 0 0))[0 := p01])
                              [5 := points ! (if right then 54 else 52)]
             in Inr (for_loop 1 5 (seagull_step points knot down) seagull0)))"

section \<open>Compositor\<close>

datatype Rect = Rect (rect_x: int) (rect_y: int) (rect_width: int) (rect_height: int)

text \<open>OpenCV's intersection \<^verbatim>\<open>a & b\<close> of two rectangles, and \<^verbatim>\<open>Rect::contains\<close>.\<close>

definition rect_and :: "Rect \<Rightarrow> Rect \<Rightarrow> Rect" where
  "rect_and a b =
     (let x1 = max (rect_x a) (rect_x b);
          y1 = max (rect_y a) (rect_y b);
          w = min (rect_x a + rect_width a) (rect_x b + rect_width b) - x1;
          h = min (rect_y a + rect_height a) (rect_y b + rect_height b) - y1
      in if w \<le> 0 \<or> h \<le> 0 then Rect 0 0 0 0 else Rect x1 y1 w h)"

definition rect_contains :: "Rect \<Rightarrow> Point2i \<Rightarrow> bool" where
  "rect_contains a p = (rect_x a \<le> pti_x p \<and> pti_x p < rect_x a + rect_width a
     \<and> rect_y a \<le> pti_y p \<and> pti_y p < rect_y a + rect_height a)"

text \<open>Division of \<^verbatim>\<open>int\<close> in C++ truncates towards zero.\<close>

definition c_div :: "int \<Rightarrow> int \<Rightarrow> int" where
  "c_div a b = sgn a * sgn b * (\<bar>a\<bar> div \<bar>b\<bar>)"

text \<open>
  The statement \<^verbatim>\<open>dst_color = venus::mix(dst_color, src_color, amount)\<close> on the pixel
  \<open>(r, c)\<close> of \<open>result\<close>, read and written as element type \<open>T\<close>. \<^verbatim>\<open>venus::mix\<close>
  comes from a header that is not among the sources: it is the parameter \<open>mix\<close>.
\<close>

definition mix_at :: "(pixel \<Rightarrow> pixel \<Rightarrow> real \<Rightarrow> pixel) \<Rightarrow> mat_type \<Rightarrow> Mat \<Rightarrow> Point2i \<Rightarrow> real
    \<Rightarrow> int \<Rightarrow> int \<Rightarrow> Mat \<Rightarrow> error + Mat" where
  "mix_at mix T src origin amount r c result =
     (case Mat_at T src (r - pti_y origin) (c - pti_x origin) of
        Inl e \<Rightarrow> Inl e
      | Inr src_color \<Rightarrow>
          (case Mat_at T result r c of
             Inl e \<Rightarrow> Inl e
           | Inr dst_color \<Rightarrow> Mat_put T result r c (mix dst_color src_color amount)))"

text \<open>
  \<^verbatim>\<open>Makeup::blend(result, dst, src, origin, amount)\<close>. \<open>result\<close> is an output: it either
  is \<open>dst\<close> itself or receives a copy of it, so the model starts from \<open>dst\<close> and returns
  \<open>result\<close>. The cases for \<^verbatim>\<open>CV_8UC3\<close> and \<^verbatim>\<open>CV_32FC3\<close> are compiled out
  (\<^verbatim>\<open>#if 0\<close>).
\<close>

definition blend :: "(pixel \<Rightarrow> pixel \<Rightarrow> real \<Rightarrow> pixel) \<Rightarrow> Mat \<Rightarrow> Mat \<Rightarrow> Point2i \<Rightarrow> real
    \<Rightarrow> error + Mat" where
  "blend mix dst src origin amount =
     (if \<not> (\<not> Mat_empty src \<and> (mtype src = CV_8UC4 \<or> mtype src = CV_32FC4))
      then Inl AssertionFailed
      else
        let result = dst;
            rect_src = Rect (pti_x origin) (pti_y origin) (cols src) (rows src);
            rect_dst = Rect 0 0 (cols dst) (rows dst);
            rect = rect_and rect_dst rect_src
        in if mtype dst = CV_8UC4 then
             for_loop_E (rect_y rect) (rect_y rect + rect_height rect)
               (\<lambda>r. for_loop_E (rect_x rect) (rect_x rect + rect_width rect)
                  (\<lambda>c. mix_at mix CV_8UC4 src origin amount r c)) result
           else if mtype dst = CV_32FC4 then
             for_loop_E (rect_y rect) (rect_y rect + rect_height rect)
               (\<lambda>r. for_loop_E (rect_x rect) (rect_x rect + rect_width rect)
                  (\<lambda>c. mix_at mix CV_32FC4 src origin amount r c)) result
           else Inl AssertionFailed)"

text \<open>The masked overload \<^verbatim>\<open>Makeup::blend(result, dst, src, mask, origin, amount)\<close>.\<close>

definition blend_masked_pixel :: "(pixel \<Rightarrow> pixel \<Rightarrow> real \<Rightarrow> pixel) \<Rightarrow> Mat \<Rightarrow> Mat \<Rightarrow> Mat
    \<Rightarrow> Point2i \<Rightarrow> real \<Rightarrow> int \<Rightarrow> int \<Rightarrow> Mat \<Rightarrow> error + Mat" where
  "blend_masked_pixel mix dst src msk origin amount r c result =
     (let rect_mask = Rect 0 0 (cols msk) (rows msk);
          offset_x = c_div (cols src - cols msk) 2;
          offset_y = c_div (rows src - rows msk) 2;
          src_r = r - pti_y origin;
          src_c = c - pti_x origin;
          mask_position = Point2i (src_c - offset_x) (src_r - offset_y)
      in if \<not> rect_contains rect_mask mask_position then Inr result
         else
           (case Mat_at CV_8UC1 msk (pti_y mask_position) (pti_x mask_position) of
              Inl e \<Rightarrow> Inl e
            | Inr m \<Rightarrow>
                if byte_of_pixel m = 0 then Inr result
                else if mtype dst = CV_8UC4 then mix_at mix CV_8UC4 src origin amount r c result
                else if mtype dst = CV_32FC3 then mix_at mix CV_32FC3 src origin amount r c result
                else if mtype dst = CV_32FC4 then mix_at mix CV_32FC4 src origin amount r c result
                else Inl AssertionFailed))"

definition blend_masked :: "(pixel \<Rightarrow> pixel \<Rightarrow> real \<Rightarrow> pixel) \<Rightarrow> Mat \<Rightarrow> Mat \<Rightarrow> Mat \<Rightarrow> Point2i
    \<Rightarrow> real \<Rightarrow> error + Mat" where
  "blend_masked mix dst src msk origin amount =
     (if \<not> (snd (mtype src) = snd (mtype dst) \<and> fst (mtype src) = fst (mtype dst))
      then Inl AssertionFailed
      else if mtype msk \<noteq> CV_8UC1 then Inl AssertionFailed
      else
        let result = dst;
            rect_src = Rect (pti_x origin) (pti_y origin) (cols src) (rows src);
            rect_dst = Rect 0 0 (cols dst) (rows dst);
            rect = rect_and rect_dst rect_src
        in for_loop_E (rect_y rect) (rect_y rect + rect_height rect)
             (\<lambda>r. for_loop_E (rect_x rect) (rect_x rect + rect_width rect)
                (\<lambda>c. blend_masked_pixel mix dst src msk origin amount r c)) result)"

text \<open>
  OpenCV's \<^verbatim>\<open>cvRound\<close>, which is also \<^verbatim>\<open>saturate_cast<int>\<close> of a \<^verbatim>\<open>double\<close>: the
  nearest integer, ties to the even one.
\<close>

definition cvRound :: "real \<Rightarrow> int" where
  "cvRound v =
     (let f = \<lfloor>v\<rfloor>; d = v - real_of_int f
      in if d < 1 / 2 then f else if 1 / 2 < d then f + 1 else if even f then f else f + 1)"

text \<open>
  Modelled from the spec: \<^verbatim>\<open>venus::mix\<close>, whose header is not among the sources. The
  specification of the compositor says
  "\<^verbatim>\<open>result = lerp(dst, src, amount)\<close> componentwise (including alpha, when present)";
  an 8-bit sample is rounded back to a byte.
\<close>

definition spec_lerp :: "real \<Rightarrow> real \<Rightarrow> real \<Rightarrow> real" where
  "spec_lerp a b t = a + (b - a) * t"

text \<open>
  Modelled from the spec: one component of \<^verbatim>\<open>venus::mix\<close>, the \<^verbatim>\<open>lerp\<close> of a
  \<^verbatim>\<open>float\<close> sample, and of an 8-bit sample rounded and saturated to a byte.
\<close>

fun spec_mix_sample :: "real \<Rightarrow> sample \<Rightarrow> sample \<Rightarrow> sample" where
  "spec_mix_sample t (F32 d) (F32 s) = F32 (spec_lerp d s t)"
| "spec_mix_sample t (U8 d) (U8 s) =
     U8 (word_of_int (max 0 (min 255 (cvRound (spec_lerp (real (unat d)) (real (unat s)) t)))))"
| "spec_mix_sample t d s = d"

text \<open>
  Modelled from the spec: \<^verbatim>\<open>venus::mix(dst, src, amount)\<close> on a pixel, component by
  component.
\<close>

definition spec_mix :: "pixel \<Rightarrow> pixel \<Rightarrow> real \<Rightarrow> pixel" where
  "spec_mix dst_color src_color amount = map2 (spec_mix_sample amount) dst_color src_color"

section \<open>Brow pipeline: copying the inpainted patch back\<close>

text \<open>
  The loop of \<^verbatim>\<open>Makeup::applyBrow\<close> that mixes the inpainted \<open>roi\<close> into \<open>dst\<close> (the
  active \<^verbatim>\<open>#else\<close> branch), as a function of the values computed before it: the
  bounding rectangle \<open>rect\<close> of the brow polygon, the mask with margin and the inpainted
  patch. \<^verbatim>\<open>lerp\<close> on bytes is declared in another header of venus: it is a parameter.
\<close>

fun u8_of :: "sample \<Rightarrow> uint8_t" where
  "u8_of (U8 b) = b"
| "u8_of (F32 v) = 0"

definition brow_mix :: "(uint8_t \<Rightarrow> uint8_t \<Rightarrow> uint8_t \<Rightarrow> uint8_t) \<Rightarrow> pixel \<Rightarrow> pixel \<Rightarrow> uint8_t
    \<Rightarrow> pixel" where
  "brow_mix lerp dst_color src_color alpha =
     (let p = dst_color;
          p = p[0 := U8 (lerp (u8_of (p ! 0)) (u8_of (src_color ! 0)) alpha)];
          p = p[1 := U8 (lerp (u8_of (p ! 1)) (u8_of (src_color ! 1)) alpha)];
          p = p[2 := U8 (lerp (u8_of (p ! 2)) (u8_of (src_color ! 2)) alpha)]
      in p)"

definition brow_copy_pixel :: "(uint8_t \<Rightarrow> uint8_t \<Rightarrow> uint8_t \<Rightarrow> uint8_t) \<Rightarrow> Rect \<Rightarrow> Mat \<Rightarrow> Mat
    \<Rightarrow> int \<Rightarrow> int \<Rightarrow> Mat \<Rightarrow> error + Mat" where
  "brow_copy_pixel lerp rect roi_mask_with_margin roi r c dst =
     (let offset = 8 in
      case Mat_at CV_8UC1 roi_mask_with_margin (r + offset) (c + offset) of
        Inl e \<Rightarrow> Inl e
      | Inr a \<Rightarrow>
          (let alpha = byte_of_pixel a in
           if alpha = 0 then Inr dst
           else
             (case Mat_at CV_8UC3 roi r c of
                Inl e \<Rightarrow> Inl e
              | Inr src_color \<Rightarrow>
                  (case Mat_at CV_8UC4 dst (r + rect_y rect) (c + rect_x rect) of
                     Inl e \<Rightarrow> Inl e
                   | Inr dst_color \<Rightarrow>
                       Mat_put CV_8UC4 dst (r + rect_y rect) (c + rect_x rect)
                         (brow_mix lerp dst_color src_color alpha)))))"

definition applyBrow_copy_back :: "(uint8_t \<Rightarrow> uint8_t \<Rightarrow> uint8_t \<Rightarrow> uint8_t) \<Rightarrow> Rect \<Rightarrow> Mat
    \<Rightarrow> Mat \<Rightarrow> Mat \<Rightarrow> error + Mat" where
  "applyBrow_copy_back lerp rect roi_mask_with_margin roi dst =
     for_loop_E 0 (rect_height rect)
       (\<lambda>r. for_loop_E 0 (rect_width rect)
          (\<lambda>c. brow_copy_pixel lerp rect roi_mask_with_margin roi r c)) dst"

section \<open>Eye shadow\<close>

text \<open>
  \<^verbatim>\<open>cv::Vec3i\<close> is a list of three \<open>int\<close>. OpenCV's \<^verbatim>\<open>Vec3i * int\<close> multiplies each
  component; \<^verbatim>\<open>Vec3i / int\<close> multiplies each component by the \<^verbatim>\<open>double\<close> \<open>1./alpha\<close>
  and converts back with \<^verbatim>\<open>saturate_cast<int>\<close>, which is \<^verbatim>\<open>cvRound\<close> (to nearest, ties
  to even).
\<close>

type_synonym Vec3i = "int list"

definition Vec3i_add :: "Vec3i \<Rightarrow> Vec3i \<Rightarrow> Vec3i" where
  "Vec3i_add a b = map2 (+) a b"

definition Vec3i_mul :: "Vec3i \<Rightarrow> int \<Rightarrow> Vec3i" where
  "Vec3i_mul a alpha = map (\<lambda>v. v * alpha) a"

definition Vec3i_div :: "Vec3i \<Rightarrow> int \<Rightarrow> Vec3i" where
  "Vec3i_div a alpha = map (\<lambda>v. cvRound (real_of_int v * (1 / real_of_int alpha))) a"

definition unpack :: "uint32_t \<Rightarrow> Vec3i" where
  "unpack c = [uint (c AND 0xFF), uint (drop_bit 8 c AND 0xFF), uint (drop_bit 16 c AND 0xFF)]"

text \<open>The innermost loop over the three layers; its state is \<open>(rgb, a, a_max)\<close>.\<close>

definition shadow_layer :: "Mat list \<Rightarrow> Vec3i list \<Rightarrow> int \<Rightarrow> int \<Rightarrow> int \<Rightarrow> Vec3i \<times> int \<times> int
    \<Rightarrow> error + Vec3i \<times> int \<times> int" where
  "shadow_layer masks colors r c i st =
     (case st of (rgb, a, a_max) \<Rightarrow>
        (case Mat_at CV_8UC1 (masks ! nat i) r c of
           Inl e \<Rightarrow> Inl e
         | Inr p \<Rightarrow>
             (let alpha = uint (byte_of_pixel p)
              in Inr (Vec3i_add rgb (Vec3i_mul (colors ! nat i) alpha), a + alpha,
                      if a_max < alpha then alpha else a_max))))"

text \<open>
  One pixel: the accumulation over the layers and the division (\<open>shadow_merge\<close>), then
  the assertions on the range of \<open>rgb\<close> and the store into the bitmap.
\<close>

definition shadow_merge :: "Mat list \<Rightarrow> Vec3i list \<Rightarrow> int \<Rightarrow> int \<Rightarrow> error + Vec3i \<times> int" where
  "shadow_merge masks colors r c =
     (case for_loop_E 0 3 (shadow_layer masks colors r c) ([0, 0, 0], 0, 0) of
        Inl e \<Rightarrow> Inl e
      | Inr (rgb0, a0, a_max) \<Rightarrow>
          (let rgb = (if a0 \<noteq> 0 then Vec3i_div rgb0 a0 else rgb0);
               a = a_max
           in Inr (rgb, a)))"

definition shadow_pixel :: "bool \<Rightarrow> Mat list \<Rightarrow> Vec3i list \<Rightarrow> int \<Rightarrow> int \<Rightarrow> Mat \<Rightarrow> error + Mat" where
  "shadow_pixel USE_BGRA_LAYOUT masks colors r c bitmap =
     (case shadow_merge masks colors r c of
        Inl e \<Rightarrow> Inl e
      | Inr (rgb, a) \<Rightarrow>
          (case for_loop_E 0 3
                  (\<lambda>i u. if 0 \<le> rgb ! nat i \<and> rgb ! nat i \<le> 255 then Inr u
                          else Inl AssertionFailed) () of
             Inl e \<Rightarrow> Inl e
           | Inr u \<Rightarrow>
               Mat_put CV_8UC4 bitmap r c
                 (if USE_BGRA_LAYOUT
                  then [U8 (word_of_int (rgb ! 2)), U8 (word_of_int (rgb ! 1)),
                        U8 (word_of_int (rgb ! 0)), U8 (word_of_int a)]
                  else [U8 (word_of_int (rgb ! 0)), U8 (word_of_int (rgb ! 1)),
                        U8 (word_of_int (rgb ! 2)), U8 (word_of_int a)])))"

text \<open>
  \<^verbatim>\<open>Makeup::createEyeShadow(mask, color)\<close>; the arrays of three masks and three colours
  are lists. The bitmap is allocated uninitialised and every pixel is written; the model
  starts from zeros.
\<close>

definition createEyeShadow :: "bool \<Rightarrow> Mat list \<Rightarrow> uint32_t list \<Rightarrow> error + Mat" where
  "createEyeShadow USE_BGRA_LAYOUT masks color =
     (let cols0 = cols (masks ! 0); rows0 = rows (masks ! 0);
          bitmap = \<lparr>rows = rows0, cols = cols0, mtype = CV_8UC4,
                    data = replicate (nat (rows0 * cols0)) [U8 0, U8 0, U8 0, U8 0]\<rparr>;
          colors = [unpack (color ! 0), unpack (color ! 1), unpack (color ! 2)]
      in for_loop_E 0 rows0
           (\<lambda>r. for_loop_E 0 cols0 (\<lambda>c. shadow_pixel USE_BGRA_LAYOUT masks colors r c)) bitmap)"

section \<open>Concrete collaborators and the specification's disk\<close>

text \<open>
  A fixed set of collaborators, for running \<open>createPolygon\<close> on concrete landmarks. No
  result below depends on what they compute.
\<close>

definition venus_stub :: venus where
  "venus_stub = \<lparr>COUNT = 81,
     calculateBlushPolygon = (\<lambda>points right. []),
     getSymmetryAxis = (\<lambda>points. Vec4f 0 1 0 0),
     distance = (\<lambda>p line. 0),
     catmullRomSpline = (\<lambda>t p0 p1 p2 p3. p1)\<rparr>"

text \<open>
  The disk of the specification, from its words: the centre is the midpoint of the two
  landmark points, the radius half their horizontal distance, and sample \<open>i\<close> of 12 lies
  at the angle \<open>i * 2 * pi / 12\<close>.
\<close>

definition spec_disk :: "Point2f \<Rightarrow> Point2f \<Rightarrow> Point2f list" where
  "spec_disk a b =
     map (\<lambda>i. pt_add (pt_div (pt_add a b) 2)
                 (pt_scale (\<bar>pt_x a - pt_x b\<bar> / 2)
                    (Point2f (cos (real i * (2 * pi / 12))) (sin (real i * (2 * pi / 12))))))
       [0..<12]"

section \<open>Predicates used in the statements\<close>

definition same_shape :: "Mat \<Rightarrow> Mat \<Rightarrow> bool" where
  "same_shape a b = (rows a = rows b \<and> cols a = cols b \<and> mtype a = mtype b
     \<and> length (data a) = length (data b))"

definition dims_ok :: "Mat \<Rightarrow> bool" where
  "dims_ok m = (0 \<le> rows m \<and> 0 \<le> cols m \<and> int (length (data m)) = rows m * cols m)"

text \<open>
  The overlap region of a blend (the pixels of \<open>dst\<close> covered by \<open>src\<close> placed at
  \<open>origin\<close>), and the gate of the masked blend: the pixel, mapped through the offset
  \<open>(srcSize - maskSize) / 2\<close>, lies inside the mask and the mask is not 0 there.
\<close>

definition mask_gate :: "Mat \<Rightarrow> Mat \<Rightarrow> Point2i \<Rightarrow> int \<Rightarrow> int \<Rightarrow> bool" where
  "mask_gate src msk origin r c =
     (let mx = c - pti_x origin - c_div (cols src - cols msk) 2;
          my = r - pti_y origin - c_div (rows src - rows msk) 2
      in inside msk my mx \<and> byte_of_pixel (px msk my mx) \<noteq> 0)"

definition overlap :: "Mat \<Rightarrow> Mat \<Rightarrow> Point2i \<Rightarrow> int \<Rightarrow> int \<Rightarrow> bool" where
  "overlap dst src origin r c =
     (inside dst r c \<and> inside src (r - pti_y origin) (c - pti_x origin))"

text \<open>
  The pixel that the copy-back step of the brow pipeline leaves at a position of the brow
  rectangle, from the words of the specification: unchanged where the mask's alpha is 0,
  and otherwise the three colour channels mixed and the fourth channel of the destination
  kept.
\<close>

definition brow_result :: "(uint8_t \<Rightarrow> uint8_t \<Rightarrow> uint8_t \<Rightarrow> uint8_t) \<Rightarrow> pixel \<Rightarrow> pixel \<Rightarrow> uint8_t
    \<Rightarrow> pixel" where
  "brow_result lerp p s alpha =
     (if alpha = 0 then p
      else [U8 (lerp (u8_of (p ! 0)) (u8_of (s ! 0)) alpha),
            U8 (lerp (u8_of (p ! 1)) (u8_of (s ! 1)) alpha),
            U8 (lerp (u8_of (p ! 2)) (u8_of (s ! 2)) alpha),
            p ! 3])"

text \<open>
  A byte \<open>lerp\<close> for running the copy-back step on concrete input (the one of venus is
  not among the sources). No result below depends on it.
\<close>

definition lerp_u8 :: "uint8_t \<Rightarrow> uint8_t \<Rightarrow> uint8_t \<Rightarrow> uint8_t" where
  "lerp_u8 a b alpha =
     word_of_nat ((unat a * (255 - unat alpha) + unat b * unat alpha + 127) div 255)"

text \<open>
  The merge of the eye shadow layers, from the words of the specification: per channel the
  accumulated \<open>color[i] * alpha[i]\<close> divided by the accumulated alpha, rounded to the
  nearest integer, or 0 when the total alpha is 0; the alpha of the result is the maximum
  of the alphas of the layers. \<open>layer_bytes\<close> are the three mask values at a pixel,
  \<open>masks_ok\<close> says that the three masks are well-formed 8-bit masks of one size.
\<close>

definition color_channel :: "uint32_t \<Rightarrow> nat \<Rightarrow> int" where
  "color_channel C k = uint (drop_bit (8 * k) C AND 0xFF)"

definition merged_channel :: "uint32_t list \<Rightarrow> uint8_t list \<Rightarrow> nat \<Rightarrow> int" where
  "merged_channel color alpha k =
     (let total = uint (alpha ! 0) + uint (alpha ! 1) + uint (alpha ! 2);
          acc = color_channel (color ! 0) k * uint (alpha ! 0)
              + color_channel (color ! 1) k * uint (alpha ! 1)
              + color_channel (color ! 2) k * uint (alpha ! 2)
      in if total = 0 then 0 else cvRound (real_of_int acc / real_of_int total))"

definition eye_shadow_pixel :: "bool \<Rightarrow> uint32_t list \<Rightarrow> uint8_t list \<Rightarrow> pixel" where
  "eye_shadow_pixel USE_BGRA_LAYOUT color alpha =
     (let ch0 = word_of_int (merged_channel color alpha 0);
          ch1 = word_of_int (merged_channel color alpha 1);
          ch2 = word_of_int (merged_channel color alpha 2);
          a = max (alpha ! 0) (max (alpha ! 1) (alpha ! 2))
      in if USE_BGRA_LAYOUT then [U8 ch2, U8 ch1, U8 ch0, U8 a] else [U8 ch0, U8 ch1, U8 ch2, U8 a])"

definition layer_bytes :: "Mat list \<Rightarrow> int \<Rightarrow> int \<Rightarrow> uint8_t list" where
  "layer_bytes masks r c =
     [byte_of_pixel (px (masks ! 0) r c), byte_of_pixel (px (masks ! 1) r c),
      byte_of_pixel (px (masks ! 2) r c)]"

definition masks_ok :: "Mat list \<Rightarrow> bool" where
  "masks_ok masks = (\<forall>i < 3. wf_Mat (masks ! i) \<and> mtype (masks ! i) = CV_8UC1
     \<and> rows (masks ! i) = rows (masks ! 0) \<and> cols (masks ! i) = cols (masks ! 0))"

text \<open>The invariant of the loop over the layers: every accumulated channel is at most 255 times the accumulated alpha.\<close>

definition layer_inv :: "Vec3i \<times> int \<times> int \<Rightarrow> bool" where
  "layer_inv st = (case st of (rgb, a, a_max) \<Rightarrow>
     length rgb = 3 \<and> (\<forall>k < 3. 0 \<le> rgb ! k \<and> rgb ! k \<le> 255 * a) \<and> 0 \<le> a)"

section \<open>Loops and matrices: general lemmas\<close>

lemma for_loop_done: "hi \<le> i \<Longrightarrow> for_loop i hi body s = s"
  by (simp add: for_loop.simps)

lemma for_loop_step: "i < hi \<Longrightarrow> for_loop i hi body s = for_loop (i + 1) hi body (body i s)"
  by (subst for_loop.simps) simp

lemma for_loop_fill:
  "0 \<le> lo \<Longrightarrow> length (for_loop lo hi (\<lambda>i xs. xs[nat i := f i]) xs) = length xs \<and>
   (\<forall>k < length xs. for_loop lo hi (\<lambda>i xs. xs[nat i := f i]) xs ! k =
      (if lo \<le> int k \<and> int k < hi then f (int k) else xs ! k))"
proof (induction lo hi "\<lambda>i (xs :: 'a list). xs[nat i := f i]" xs rule: for_loop.induct)
  case (1 i hi s)
  show ?case
  proof (cases "i < hi")
    case False
    then show ?thesis by (auto simp add: for_loop_done)
  next
    case True
    have ih: "length (for_loop (i + 1) hi (\<lambda>i xs. xs[nat i := f i]) (s[nat i := f i])) = length (s[nat i := f i]) \<and>
      (\<forall>k < length (s[nat i := f i]). for_loop (i + 1) hi (\<lambda>i xs. xs[nat i := f i]) (s[nat i := f i]) ! k =
      (if i + 1 \<le> int k \<and> int k < hi then f (int k) else (s[nat i := f i]) ! k))"
      using 1 True by simp
    show ?thesis
    proof (intro conjI allI impI)
      show "length (for_loop i hi (\<lambda>i xs. xs[nat i := f i]) s) = length s"
        using ih True by (simp add: for_loop_step)
    next
      fix k assume k: "k < length s"
      have "for_loop i hi (\<lambda>i xs. xs[nat i := f i]) s ! k =
        (if i + 1 \<le> int k \<and> int k < hi then f (int k) else (s[nat i := f i]) ! k)"
        using ih True k by (simp add: for_loop_step)
      also have "\<dots> = (if i \<le> int k \<and> int k < hi then f (int k) else s ! k)"
      proof (cases "int k = i")
        case True
        then have "nat i = k" by simp
        then show ?thesis using k True \<open>i < hi\<close> by simp
      next
        case False
        then have "nat i \<noteq> k" using \<open>0 \<le> i\<close> by auto
        then show ?thesis using False by auto
      qed
      finally show "for_loop i hi (\<lambda>i xs. xs[nat i := f i]) s ! k =
        (if i \<le> int k \<and> int k < hi then f (int k) else s ! k)" .
    qed
  qed
qed

lemma for_loop_E_done: "hi \<le> i \<Longrightarrow> for_loop_E i hi body s = Inr s"
  by (simp add: for_loop_E.simps)

lemma for_loop_E_step:
  "i < hi \<Longrightarrow> for_loop_E i hi body s =
     (case body i s of Inl e \<Rightarrow> Inl e | Inr s' \<Rightarrow> for_loop_E (i + 1) hi body s')"
  by (subst for_loop_E.simps) simp

lemma for_loop_E_inv:
  assumes "I lo s" and "lo \<le> hi"
    and step: "\<And>i s. lo \<le> i \<Longrightarrow> i < hi \<Longrightarrow> I i s \<Longrightarrow> \<exists>s'. body i s = Inr s' \<and> I (i + 1) s'"
  shows "\<exists>s'. for_loop_E lo hi body s = Inr s' \<and> I hi s'"
proof -
  have "n = nat (hi - i) \<Longrightarrow> lo \<le> i \<Longrightarrow> i \<le> hi \<Longrightarrow> I i s
      \<Longrightarrow> \<exists>s'. for_loop_E i hi body s = Inr s' \<and> I hi s'" for n i s
  proof (induction n arbitrary: i s)
    case 0
    then have "i = hi" by simp
    then show ?case using 0 by (simp add: for_loop_E_done)
  next
    case (Suc n)
    then have lt: "i < hi" by linarith
    obtain s' where s': "body i s = Inr s'" "I (i + 1) s'"
      using step[of i s] Suc.prems lt by blast
    have "\<exists>s''. for_loop_E (i + 1) hi body s' = Inr s'' \<and> I hi s''"
      using Suc.IH[of "i + 1" s'] Suc.prems lt s' by simp
    then show ?case using lt s' by (simp add: for_loop_E_step)
  qed
  then show ?thesis using assms by simp
qed

text \<open>A body that leaves the state alone or fails, depending on the index only.\<close>

lemma for_loop_E_const:
  "for_loop_E lo hi (\<lambda>i s. if P i then Inr s else Inl e) s =
     (if \<forall>i. lo \<le> i \<and> i < hi \<longrightarrow> P i then Inr s else Inl e)"
proof -
  have "n = nat (hi - i) \<Longrightarrow> for_loop_E i hi (\<lambda>i s. if P i then Inr s else Inl e) s =
     (if \<forall>j. i \<le> j \<and> j < hi \<longrightarrow> P j then Inr s else Inl e)" for n i
  proof (induction n arbitrary: i)
    case 0
    then have "hi \<le> i" by simp
    then show ?case by (auto simp add: for_loop_E_done)
  next
    case (Suc n)
    then have lt: "i < hi" by linarith
    have ih: "for_loop_E (i + 1) hi (\<lambda>i s. if P i then Inr s else Inl e) s =
     (if \<forall>j. i + 1 \<le> j \<and> j < hi \<longrightarrow> P j then Inr s else Inl e)"
      using Suc.IH[of "i + 1"] Suc.prems by simp
    have split: "(\<forall>j. i \<le> j \<and> j < hi \<longrightarrow> P j) = (P i \<and> (\<forall>j. i + 1 \<le> j \<and> j < hi \<longrightarrow> P j))"
    proof
      assume a: "\<forall>j. i \<le> j \<and> j < hi \<longrightarrow> P j"
      show "P i \<and> (\<forall>j. i + 1 \<le> j \<and> j < hi \<longrightarrow> P j)" using a lt by auto
    next
      assume a: "P i \<and> (\<forall>j. i + 1 \<le> j \<and> j < hi \<longrightarrow> P j)"
      show "\<forall>j. i \<le> j \<and> j < hi \<longrightarrow> P j"
      proof (intro allI impI)
        fix j assume "i \<le> j \<and> j < hi"
        then have "j = i \<or> (i + 1 \<le> j \<and> j < hi)" by linarith
        then show "P j" using a by blast
      qed
    qed
    show ?case
      by (subst for_loop_E_step[OF lt]) (simp add: ih split)
  qed
  then show ?thesis by simp
qed


lemma wf_Mat_dims_ok: "wf_Mat m \<Longrightarrow> dims_ok m"
  by (simp add: wf_Mat_def dims_ok_def)

lemma same_shape_refl: "same_shape m m"
  by (simp add: same_shape_def)

lemma index_less:
  assumes "0 \<le> r" "r < R" "0 \<le> c" "c < (C::int)"
  shows "r * C + c < R * C"
proof -
  have "r + 1 \<le> R" using assms by simp
  then have "(r + 1) * C \<le> R * C" using assms by (intro mult_right_mono) auto
  then show ?thesis using assms by (simp add: algebra_simps)
qed

lemma index_inj:
  assumes "0 \<le> c" "c < (C::int)" "0 \<le> c'" "c' < C" "r * C + c = r' * C + c'"
  shows "r = r' \<and> c = c'"
proof -
  have "C \<noteq> 0" using assms by auto
  have a: "(c + r * C) div C = r" using assms \<open>C \<noteq> 0\<close> by (simp add: div_pos_pos_trivial)
  have b: "(c' + r' * C) div C = r'" using assms \<open>C \<noteq> 0\<close> by (simp add: div_pos_pos_trivial)
  have e: "c + r * C = c' + r' * C" using assms(5) by (simp only: add.commute)
  have "r = (c + r * C) div C" by (simp only: a)
  also have "\<dots> = (c' + r' * C) div C" by (simp only: e)
  also have "\<dots> = r'" by (simp only: b)
  finally have "r = r'" .
  then show ?thesis using assms by simp
qed

lemma inside_index:
  assumes "dims_ok m" "inside m r c"
  shows "nat (r * cols m + c) < length (data m)" and "0 \<le> r * cols m + c"
proof -
  have "r * cols m + c < rows m * cols m"
    using assms by (intro index_less) (auto simp: inside_def)
  moreover have nn: "0 \<le> r * cols m + c" using assms by (simp add: inside_def)
  ultimately show "nat (r * cols m + c) < length (data m)"
    using assms by (simp add: dims_ok_def nat_less_iff)
  show "0 \<le> r * cols m + c" by (rule nn)
qed

lemma Mat_put_ok:
  assumes "dims_ok s" "mtype s = t" "inside s r c"
  shows "\<exists>s'. Mat_put t s r c v = Inr s' \<and> same_shape s' s \<and> px s' r c = v \<and>
    (\<forall>r' c'. inside s r' c' \<longrightarrow> (r', c') \<noteq> (r, c) \<longrightarrow> px s' r' c' = px s r' c')"
proof -
  let ?s' = "s\<lparr>data := (data s)[nat (r * cols s + c) := v]\<rparr>"
  have put: "Mat_put t s r c v = Inr ?s'" using assms by (simp add: Mat_put_def)
  have shape: "same_shape ?s' s" by (simp add: same_shape_def)
  have here: "px ?s' r c = v"
    using inside_index(1)[OF assms(1,3)] by (simp add: px_def)
  have other: "px ?s' r' c' = px s r' c'" if "inside s r' c'" "(r', c') \<noteq> (r, c)" for r' c'
  proof -
    have "r * cols s + c \<noteq> r' * cols s + c'"
      using index_inj[of c "cols s" c' r r'] that assms(3) by (auto simp: inside_def)
    then have "nat (r * cols s + c) \<noteq> nat (r' * cols s + c')"
      using inside_index(2)[OF assms(1,3)] inside_index(2)[OF assms(1) that(1)] by simp
    then show ?thesis by (simp add: px_def)
  qed
  show ?thesis using put shape here other by blast
qed

lemma same_shape_inside: "same_shape a b \<Longrightarrow> inside a r c = inside b r c"
  by (simp add: same_shape_def inside_def)

lemma same_shape_dims_ok: "same_shape a b \<Longrightarrow> dims_ok b \<Longrightarrow> dims_ok a"
  by (simp add: same_shape_def dims_ok_def)

lemma same_shape_trans: "same_shape a b \<Longrightarrow> same_shape b c \<Longrightarrow> same_shape a c"
  by (simp add: same_shape_def)

text \<open>Two nested loops over a rectangle of pixels, each step writing its own pixel only.\<close>

lemma pixel_loops:
  assumes range: "r0 \<le> r1" "c0 \<le> c1"
    and step: "\<And>r c s. r0 \<le> r \<Longrightarrow> r < r1 \<Longrightarrow> c0 \<le> c \<Longrightarrow> c < c1 \<Longrightarrow> same_shape s m0
        \<Longrightarrow> (\<forall>r' c'. inside m0 r' c' \<longrightarrow> px s r' c' =
              (if (r0 \<le> r' \<and> r' < r \<and> c0 \<le> c' \<and> c' < c1) \<or> (r' = r \<and> c0 \<le> c' \<and> c' < c)
               then g r' c' else px m0 r' c'))
        \<Longrightarrow> \<exists>s'. body r c s = Inr s' \<and> same_shape s' m0 \<and>
              (\<forall>r' c'. inside m0 r' c' \<longrightarrow> px s' r' c' = (if (r', c') = (r, c) then g r c else px s r' c'))"
  shows "\<exists>res. for_loop_E r0 r1 (\<lambda>r. for_loop_E c0 c1 (body r)) m0 = Inr res \<and> same_shape res m0 \<and>
    (\<forall>r c. inside m0 r c \<longrightarrow> px res r c =
       (if r0 \<le> r \<and> r < r1 \<and> c0 \<le> c \<and> c < c1 then g r c else px m0 r c))"
proof -
  define J where "J r c s = (same_shape s m0 \<and>
     (\<forall>r' c'. inside m0 r' c' \<longrightarrow> px s r' c' =
       (if (r0 \<le> r' \<and> r' < r \<and> c0 \<le> c' \<and> c' < c1) \<or> (r' = r \<and> c0 \<le> c' \<and> c' < c)
        then g r' c' else px m0 r' c')))" for r c s
  define I where "I r s = J r c0 s" for r s
  have inner: "\<exists>s'. for_loop_E c0 c1 (body r) s = Inr s' \<and> I (r + 1) s'"
    if r: "r0 \<le> r" "r < r1" and Is: "I r s" for r s
  proof -
    have "\<exists>s'. for_loop_E c0 c1 (body r) s = Inr s' \<and> J r c1 s'"
    proof (rule for_loop_E_inv[where I = "J r"])
      show "J r c0 s" using Is by (simp add: I_def)
      show "c0 \<le> c1" by (rule range)
    next
      fix c s assume c: "c0 \<le> c" "c < c1" and Js: "J r c s"
      obtain s' where s': "body r c s = Inr s'" "same_shape s' m0"
        "\<forall>r' c'. inside m0 r' c' \<longrightarrow> px s' r' c' = (if (r', c') = (r, c) then g r c else px s r' c')"
        using step[OF r c] Js unfolding J_def by blast
      have "J r (c + 1) s'"
        unfolding J_def
      proof (intro conjI allI impI)
        show "same_shape s' m0" by (rule s')
      next
        fix r' c' assume ins: "inside m0 r' c'"
        show "px s' r' c' =
          (if (r0 \<le> r' \<and> r' < r \<and> c0 \<le> c' \<and> c' < c1) \<or> (r' = r \<and> c0 \<le> c' \<and> c' < c + 1)
           then g r' c' else px m0 r' c')"
        proof (cases "(r', c') = (r, c)")
          case True
          then show ?thesis using s'(3) ins c by simp
        next
          case False
          then have "px s' r' c' = px s r' c'" using s'(3) ins by auto
          also have "\<dots> = (if (r0 \<le> r' \<and> r' < r \<and> c0 \<le> c' \<and> c' < c1) \<or> (r' = r \<and> c0 \<le> c' \<and> c' < c)
             then g r' c' else px m0 r' c')"
            using Js ins unfolding J_def by blast
          also have "\<dots> = (if (r0 \<le> r' \<and> r' < r \<and> c0 \<le> c' \<and> c' < c1) \<or> (r' = r \<and> c0 \<le> c' \<and> c' < c + 1)
             then g r' c' else px m0 r' c')"
            using False by auto
          finally show ?thesis .
        qed
      qed
      then show "\<exists>s'. body r c s = Inr s' \<and> J r (c + 1) s'" using s'(1) by blast
    qed
    then obtain s' where s': "for_loop_E c0 c1 (body r) s = Inr s'" "J r c1 s'" by blast
    have "I (r + 1) s'"
      unfolding I_def J_def
    proof (intro conjI allI impI)
      show "same_shape s' m0" using s'(2) by (simp add: J_def)
    next
      fix r' c' assume ins: "inside m0 r' c'"
      have "px s' r' c' = (if (r0 \<le> r' \<and> r' < r \<and> c0 \<le> c' \<and> c' < c1) \<or> (r' = r \<and> c0 \<le> c' \<and> c' < c1)
             then g r' c' else px m0 r' c')"
        using s'(2) ins unfolding J_def by blast
      also have "\<dots> = (if (r0 \<le> r' \<and> r' < r + 1 \<and> c0 \<le> c' \<and> c' < c1) \<or> (r' = r + 1 \<and> c0 \<le> c' \<and> c' < c0)
             then g r' c' else px m0 r' c')"
        using r by auto
      finally show "px s' r' c' = (if (r0 \<le> r' \<and> r' < r + 1 \<and> c0 \<le> c' \<and> c' < c1) \<or> (r' = r + 1 \<and> c0 \<le> c' \<and> c' < c0)
             then g r' c' else px m0 r' c')" .
    qed
    then show ?thesis using s'(1) by blast
  qed
  have "\<exists>res. for_loop_E r0 r1 (\<lambda>r. for_loop_E c0 c1 (body r)) m0 = Inr res \<and> I r1 res"
  proof (rule for_loop_E_inv[where I = I])
    show "I r0 m0" by (auto simp: I_def J_def same_shape_refl)
    show "r0 \<le> r1" by (rule range)
  next
    fix r s assume "r0 \<le> r" "r < r1" "I r s"
    then show "\<exists>s'. for_loop_E c0 c1 (body r) s = Inr s' \<and> I (r + 1) s'" by (rule inner)
  qed
  then obtain res where res: "for_loop_E r0 r1 (\<lambda>r. for_loop_E c0 c1 (body r)) m0 = Inr res" "I r1 res"
    by blast
  have "same_shape res m0" using res(2) by (simp add: I_def J_def)
  moreover have "\<forall>r c. inside m0 r c \<longrightarrow> px res r c =
       (if r0 \<le> r \<and> r < r1 \<and> c0 \<le> c \<and> c < c1 then g r c else px m0 r c)"
  proof (intro allI impI)
    fix r c assume ins: "inside m0 r c"
    have "px res r c = (if (r0 \<le> r \<and> r < r1 \<and> c0 \<le> c \<and> c < c1) \<or> (r = r1 \<and> c0 \<le> c \<and> c < c0)
             then g r c else px m0 r c)"
      using res(2) ins unfolding I_def J_def by blast
    also have "\<dots> = (if r0 \<le> r \<and> r < r1 \<and> c0 \<le> c \<and> c < c1 then g r c else px m0 r c)"
      by auto
    finally show "px res r c = (if r0 \<le> r \<and> r < r1 \<and> c0 \<le> c \<and> c < c1 then g r c else px m0 r c)" .
  qed
  ultimately show ?thesis using res(1) by blast
qed

lemma for_loop_inv:
  assumes "P s" and step: "\<And>i s. lo \<le> i \<Longrightarrow> i < hi \<Longrightarrow> P s \<Longrightarrow> P (body i s)"
  shows "P (for_loop lo hi body s)"
proof -
  have "n = nat (hi - i) \<Longrightarrow> lo \<le> i \<Longrightarrow> P s \<Longrightarrow> P (for_loop i hi body s)" for n i s
  proof (induction n arbitrary: i s)
    case 0
    then have "hi \<le> i" by simp
    then show ?case using 0 by (simp add: for_loop_done)
  next
    case (Suc n)
    then have lt: "i < hi" by linarith
    have "P (for_loop (i + 1) hi body (body i s))"
      using Suc.prems lt by (intro Suc.IH step) auto
    then show ?case using lt by (simp add: for_loop_step)
  qed
  then show ?thesis using assms(1) by simp
qed

section \<open>Overlay packer: proofs\<close>

lemma m8: "(0xFF :: uint32_t) = mask 8" by (simp add: mask_eq_exp_minus_1)
lemma m24: "(0xFFFFFF :: uint32_t) = mask 24" by (simp add: mask_eq_exp_minus_1)
lemma m8_8: "(0xFF00 :: uint32_t) = push_bit 8 (mask 8)" by (simp add: mask_eq_exp_minus_1)

lemma byte_cases:
  assumes "n < (32::nat)"
  obtains "n < 8" | "8 \<le> n" "n < 16" | "16 \<le> n" "n < 24" | "24 \<le> n" "n < 32"
  using assms by linarith

lemma uint32_of_Vec4b_inverse: "uint32_of_Vec4b (Vec4b_of_uint32 w) = w"
  unfolding Vec4b_of_uint32_def uint32_of_Vec4b.simps
proof (rule bit_word_eqI)
  fix n :: nat assume "n < LENGTH(32)"
  then have "n < 32" by simp
  then show "bit (ucast (ucast w :: uint8_t) OR push_bit 8 (ucast (ucast (drop_bit 8 w) :: uint8_t)) OR
             push_bit 16 (ucast (ucast (drop_bit 16 w) :: uint8_t)) OR
             push_bit 24 (ucast (ucast (drop_bit 24 w) :: uint8_t)) :: uint32_t) n = bit w n"
    by (cases rule: byte_cases) (auto simp: bit_simps)
qed

lemma drop_bit_24_lt: "unat (drop_bit 24 (color :: uint32_t)) < 256"
proof -
  have "unat (drop_bit 24 color) = unat color div 2 ^ 24"
    by (simp add: drop_bit_eq_div unat_div)
  moreover have "unat color < 2 ^ 32" using unsigned_less[of color] by simp
  ultimately show ?thesis by simp
qed

lemma unat_u8_lt: "unat (m :: uint8_t) < 256"
  using unsigned_less[of m] by simp

lemma pack_alpha_unat:
  "unat (pack_alpha color m) = (unat (drop_bit 24 color) * unat m + 127) div 255"
proof -
  let ?a = "unat (drop_bit 24 color)" and ?m = "unat m"
  have a: "?a < 256" by (rule drop_bit_24_lt)
  have m: "?m < 256" by (rule unat_u8_lt)
  have le: "?a * ?m \<le> 255 * 255" using a m by (intro mult_mono) auto
  have um: "unat (ucast m :: uint32_t) = ?m" by (simp add: unsigned_ucast_eq take_bit_nat_eq_self unat_u8_lt [simplified] order_less_trans[OF unat_u8_lt])
  have prod: "unat (drop_bit 24 color * ucast m + 127 :: uint32_t) = ?a * ?m + 127"
    using le by (simp add: unat_word_ariths um)
  have quot: "unat ((drop_bit 24 color * ucast m + 127) div 255 :: uint32_t) = (?a * ?m + 127) div 255"
    by (simp add: unat_div prod)
  have "(?a * ?m + 127) div 255 < 256" using le by simp
  then show ?thesis
    unfolding pack_alpha_def by (simp add: unsigned_ucast_eq quot take_bit_nat_eq_self)
qed

lemma pack_pixel_alpha: "drop_bit 24 (pack_pixel b color m) = ucast (pack_alpha color m)"
  unfolding pack_pixel_def Let_def m8 m24 m8_8
proof (rule bit_word_eqI)
  fix n :: nat assume "n < LENGTH(32)"
  then have "n < 32" by simp
  then show "bit (drop_bit 24 (if b then drop_bit 16 color AND mask 8 OR color AND push_bit 8 (mask 8) OR
                        push_bit 16 (color AND mask 8) OR push_bit 24 (ucast (pack_alpha color m))
                   else color AND mask 24 OR push_bit 24 (ucast (pack_alpha color m))) :: uint32_t) n
     = bit (ucast (pack_alpha color m) :: uint32_t) n"
    by (cases rule: byte_cases) (auto simp: bit_simps dest: bit_imp_le_length)
qed

lemma pack_pixel_rgb:
  "pack_pixel b color m AND 0xFFFFFF =
     (if b then (drop_bit 16 color AND 0xFF) OR (color AND 0xFF00) OR push_bit 16 (color AND 0xFF)
      else color AND 0xFFFFFF)"
  unfolding pack_pixel_def Let_def m8 m24 m8_8
proof (rule bit_word_eqI)
  fix n :: nat assume "n < LENGTH(32)"
  then have "n < 32" by simp
  then show "bit ((if b then drop_bit 16 color AND mask 8 OR color AND push_bit 8 (mask 8) OR
                        push_bit 16 (color AND mask 8) OR push_bit 24 (ucast (pack_alpha color m))
                   else color AND mask 24 OR push_bit 24 (ucast (pack_alpha color m))) AND mask 24 :: uint32_t) n
     = bit (if b then drop_bit 16 color AND mask 8 OR color AND push_bit 8 (mask 8) OR push_bit 16 (color AND mask 8)
      else color AND mask 24) n"
    by (cases rule: byte_cases) (auto simp: bit_simps)
qed


lemma pixel_ok_Vec4b: "pixel_ok CV_8UC4 (Vec4b_of_uint32 w)"
  by (simp add: pixel_ok_def Vec4b_of_uint32_def)

text \<open>
  Claim C4, as amended. For every well-formed single-channel 8-bit mask and every packed
  colour, \<open>pack\<close> returns a 4-channel 8-bit image of the mask's size; the alpha byte of
  pixel \<open>i\<close> is \<open>(alphaOf(color) * mask[i] + 127) div 255\<close>; the low 24 bits are the
  colour's RGB bits unchanged when \<^verbatim>\<open>USE_BGRA_LAYOUT\<close> is off, and the colour's RGB bits
  with the R and B bytes exchanged when it is on.
\<close>

theorem pack_spec:
  assumes "wf_Mat msk" and "mtype msk = CV_8UC1"
  shows "\<exists>image. pack USE_BGRA_LAYOUT msk color = Inr image
     \<and> rows image = rows msk \<and> cols image = cols msk \<and> mtype image = CV_8UC4 \<and> wf_Mat image
     \<and> (\<forall>i < length (data msk).
          unat (drop_bit 24 (uint32_of_Vec4b (data image ! i))) =
            (unat (drop_bit 24 color) * unat (byte_of_pixel (data msk ! i)) + 127) div 255
          \<and> uint32_of_Vec4b (data image ! i) AND 0x00FFFFFF =
            (if USE_BGRA_LAYOUT
             then (drop_bit 16 color AND 0xFF) OR (color AND 0x00FF00) OR push_bit 16 (color AND 0xFF)
             else color AND 0x00FFFFFF))"
proof -
  define len where "len = rows msk * cols msk"
  define mask_data where "mask_data = map byte_of_pixel (data msk)"
  define image_data where "image_data = for_loop 0 len
     (\<lambda>i image_data. image_data[nat i := pack_pixel USE_BGRA_LAYOUT color (mask_data ! nat i)])
     (replicate (nat len) (0 :: uint32_t))"
  define image where "image = \<lparr>rows = rows msk, cols = cols msk, mtype = CV_8UC4,
     data = map Vec4b_of_uint32 image_data\<rparr>"
  have len: "int (length (data msk)) = len" "0 \<le> len"
    using assms(1) by (simp_all add: wf_Mat_def len_def)
  have fill: "length image_data = nat len \<and> (\<forall>k < nat len. image_data ! k =
      (if 0 \<le> int k \<and> int k < len
       then pack_pixel USE_BGRA_LAYOUT color (mask_data ! nat (int k)) else replicate (nat len) 0 ! k))"
    unfolding image_data_def
    using for_loop_fill[of 0 len "\<lambda>i. pack_pixel USE_BGRA_LAYOUT color (mask_data ! nat i)"
        "replicate (nat len) (0 :: uint32_t)"]
    by simp
  have elem: "image_data ! i = pack_pixel USE_BGRA_LAYOUT color (byte_of_pixel (data msk ! i))"
    if "i < length (data msk)" for i
  proof -
    have "i < nat len" and "int i < len" using that len by linarith+
    then have "image_data ! i = pack_pixel USE_BGRA_LAYOUT color (mask_data ! i)"
      using fill by simp
    then show ?thesis using that by (simp add: mask_data_def)
  qed
  have res: "pack USE_BGRA_LAYOUT msk color = Inr image"
    using assms(2)
    by (simp add: pack_def Let_def image_def image_data_def mask_data_def len_def)
  have lenI: "length image_data = length (data msk)" using fill len by linarith
  have wf: "wf_Mat image"
    using assms(1) lenI
    by (simp add: wf_Mat_def image_def list_all_iff pixel_ok_Vec4b)
  have px: "unat (drop_bit 24 (uint32_of_Vec4b (data image ! i))) =
            (unat (drop_bit 24 color) * unat (byte_of_pixel (data msk ! i)) + 127) div 255
          \<and> uint32_of_Vec4b (data image ! i) AND 0x00FFFFFF =
            (if USE_BGRA_LAYOUT
             then (drop_bit 16 color AND 0xFF) OR (color AND 0x00FF00) OR push_bit 16 (color AND 0xFF)
             else color AND 0x00FFFFFF)" if i: "i < length (data msk)" for i
  proof -
    have w: "uint32_of_Vec4b (data image ! i) =
        pack_pixel USE_BGRA_LAYOUT color (byte_of_pixel (data msk ! i))"
      using i lenI elem[OF i] by (simp add: image_def uint32_of_Vec4b_inverse)
    have "unat (ucast (pack_alpha color (byte_of_pixel (data msk ! i))) :: uint32_t) =
        unat (pack_alpha color (byte_of_pixel (data msk ! i)))"
      using unat_u8_lt[of "pack_alpha color (byte_of_pixel (data msk ! i))"]
      by (simp add: unsigned_ucast_eq take_bit_nat_eq_self)
    then show ?thesis
      unfolding w by (simp only: pack_pixel_alpha pack_pixel_rgb pack_alpha_unat simp_thms)
  qed
  show ?thesis
    using res wf px by (intro exI[of _ image]) (simp add: image_def)
qed

text \<open>
  The instance of the specification: colour \<open>0x80112233\<close>, mask values 255 and 128, RGBA
  layout. The pixels are \<open>0x80112233\<close> and \<open>0x40112233\<close> (alpha 64).
\<close>

theorem pack_spec_witness:
  "wf_Mat \<lparr>rows = 1, cols = 2, mtype = CV_8UC1, data = [[U8 255], [U8 128]]\<rparr>
   \<and> (\<exists>image. pack False \<lparr>rows = 1, cols = 2, mtype = CV_8UC1, data = [[U8 255], [U8 128]]\<rparr>
          0x80112233 = Inr image
        \<and> unat (drop_bit 24 (uint32_of_Vec4b (data image ! 0))) = 128
        \<and> uint32_of_Vec4b (data image ! 0) AND 0x00FFFFFF = 0x112233
        \<and> unat (drop_bit 24 (uint32_of_Vec4b (data image ! 1))) = 64
        \<and> uint32_of_Vec4b (data image ! 1) AND 0x00FFFFFF = 0x112233)"
proof -
  let ?M = "\<lparr>rows = 1, cols = 2, mtype = CV_8UC1, data = [[U8 255], [U8 128]]\<rparr>"
  have wf: "wf_Mat ?M" by (simp add: wf_Mat_def pixel_ok_def)
  have ty: "mtype ?M = CV_8UC1" by simp
  obtain image where im: "pack False ?M 0x80112233 = Inr image"
    "\<forall>i < length (data ?M).
          unat (drop_bit 24 (uint32_of_Vec4b (data image ! i))) =
            (unat (drop_bit 24 (0x80112233 :: uint32_t)) * unat (byte_of_pixel (data ?M ! i)) + 127) div 255
          \<and> uint32_of_Vec4b (data image ! i) AND 0x00FFFFFF =
            (if False
             then (drop_bit 16 (0x80112233 :: uint32_t) AND 0xFF) OR (0x80112233 AND 0x00FF00) OR push_bit 16 (0x80112233 AND 0xFF)
             else 0x80112233 AND 0x00FFFFFF)"
    using pack_spec[OF wf ty, of False "0x80112233"] by blast
  have d: "unat (drop_bit 24 (0x80112233 :: uint32_t)) = 128" by (simp add: drop_bit_eq_div)
  have a: "(0x80112233 :: uint32_t) AND 0x00FFFFFF = 0x112233" by simp
  have "unat (drop_bit 24 (uint32_of_Vec4b (data image ! 0))) = 128
     \<and> uint32_of_Vec4b (data image ! 0) AND 0x00FFFFFF = 0x112233"
    using im(2)[rule_format, of 0] by (simp add: d a)
  moreover have "unat (drop_bit 24 (uint32_of_Vec4b (data image ! 1))) = 64
     \<and> uint32_of_Vec4b (data image ! 1) AND 0x00FFFFFF = 0x112233"
    using im(2)[rule_format, of 1] by (simp add: d a)
  ultimately show ?thesis using wf im(1) by blast
qed

text \<open>
  Claim C4 as stated fails in the BGRA layout: colour \<open>0x80112233\<close> under mask 255 is
  stored as \<open>0x80332211\<close>.
\<close>

theorem pack_bgra_counterexample:
  "pack True \<lparr>rows = 1, cols = 1, mtype = CV_8UC1, data = [[U8 255]]\<rparr> 0x80112233
     = Inr \<lparr>rows = 1, cols = 1, mtype = CV_8UC4, data = [Vec4b_of_uint32 0x80332211]\<rparr>
   \<and> uint32_of_Vec4b (Vec4b_of_uint32 0x80332211) \<noteq> 0x80112233"
  by (simp add: pack_def for_loop.simps pack_pixel_def pack_alpha_def uint32_of_Vec4b_inverse
      drop_bit_eq_div push_bit_eq_mult)

section \<open>Shape generators: proofs\<close>

lemma heart_sample_formula:
  "heart_sample center radius (cos angle) (sin angle) i =
     (let t = real_of_int i * 2 * pi / 32;
          x = sin t ^ 3;
          y = - (13 * cos t - 5 * cos (2 * t) - 2 * cos (3 * t) - cos (4 * t)) / 16
      in Point2f (pt_x center + radius * (x * cos angle - y * sin angle))
                 (pt_y center + radius * (x * sin angle + y * cos angle)))"
proof -
  define t where "t = real_of_int i * 2 * pi / 32"
  have t': "real_of_int i * (2 * pi / 32) = t" by (simp add: t_def)
  have c2: "cos (2 * t) = cos t * cos t - sin t * sin t"
    by (simp add: cos_double power2_eq_square)
  have s2: "sin (2 * t) = 2 * sin t * cos t" by (simp add: sin_double)
  have c3: "cos (3 * t) = cos t * cos (2 * t) - sin t * sin (2 * t)"
  proof -
    have "3 * t = t + 2 * t" by simp
    then show ?thesis by (simp only: cos_add)
  qed
  have c4: "cos (4 * t) = cos (2 * t) * cos (2 * t) - sin (2 * t) * sin (2 * t)"
  proof -
    have "4 * t = 2 * t + 2 * t" by simp
    then show ?thesis by (simp only: cos_add)
  qed
  have p3: "sin t ^ 3 = sin t * sin t * sin t" by (simp add: power3_eq_cube)
  show ?thesis
    unfolding heart_sample_def Let_def t' t_def[symmetric] c3 c4 p3
    unfolding c2 s2
    by (simp add: pt_add_def pt_scale_def field_simps)
qed

lemma createHeartShape_nth:
  "length (createHeartShape center radius angle) = 32 \<and>
   (\<forall>k < 32. createHeartShape center radius angle ! k =
      heart_sample center radius (cos angle) (sin angle) (int k))"
  using for_loop_fill[of 0 32 "heart_sample center radius (cos angle) (sin angle)"
      "replicate 32 (Point2f 0 0)"]
  by (simp add: createHeartShape_def Let_def)

lemma heart_sample_mirror:
  assumes "j = (32 - i) mod 32" "0 \<le> i" "i < 32"
  shows "pt_x (heart_sample center radius 1 0 j) - pt_x center =
           - (pt_x (heart_sample center radius 1 0 i) - pt_x center)
       \<and> pt_y (heart_sample center radius 1 0 j) - pt_y center =
           pt_y (heart_sample center radius 1 0 i) - pt_y center"
proof -
  define t where "t = real_of_int i * (2 * pi / 32)"
  define u where "u = real_of_int j * (2 * pi / 32)"
  have sc: "sin u = - sin t \<and> cos u = cos t"
  proof (cases "i = 0")
    case True
    then have "j = 0" using assms by simp
    then show ?thesis using True by (simp add: t_def u_def)
  next
    case False
    have "(32 - i) mod 32 = 32 - i" using False assms(2,3) by (intro mod_pos_pos_trivial) auto
    then have "j = 32 - i" using assms(1) by (simp only:)
    then have "real_of_int j = 32 - real_of_int i" by simp
    then have "u = 2 * pi - t" by (simp add: t_def u_def left_diff_distrib)
    then show ?thesis by (simp add: sin_diff cos_diff)
  qed
  show ?thesis
    unfolding heart_sample_def Let_def t_def[symmetric] u_def[symmetric]
    using sc by (simp add: pt_add_def pt_scale_def)
qed


text \<open>
  Claim C7. For every centre, radius and angle, \<open>createHeartShape\<close> returns exactly 32
  points; point \<open>i\<close> is the point \<open>x = sin\<^sup>3 t\<close>,
  \<open>y = - (13 cos t - 5 cos 2t - 2 cos 3t - cos 4t) / 16\<close> of the heart curve at
  \<open>t = i * 2 * pi / 32\<close>, rotated by the angle, scaled by the radius and translated by the
  centre; with angle 0 every point has a mirror image among the 32 points: the same
  vertical offset from the centre and the opposite horizontal offset. Coordinates are real
  numbers here, so the tolerance of the claim is not needed.
\<close>

theorem createHeartShape_spec:
  "length (createHeartShape center radius angle) = 32
   \<and> (\<forall>i < 32. createHeartShape center radius angle ! i =
        (let t = real i * 2 * pi / 32;
             x = sin t ^ 3;
             y = - (13 * cos t - 5 * cos (2 * t) - 2 * cos (3 * t) - cos (4 * t)) / 16
         in Point2f (pt_x center + radius * (x * cos angle - y * sin angle))
                    (pt_y center + radius * (x * sin angle + y * cos angle))))
   \<and> (\<forall>i < 32. \<exists>j < 32.
         pt_x (createHeartShape center radius 0 ! j) - pt_x center =
           - (pt_x (createHeartShape center radius 0 ! i) - pt_x center)
       \<and> pt_y (createHeartShape center radius 0 ! j) - pt_y center =
           pt_y (createHeartShape center radius 0 ! i) - pt_y center)"
proof (intro conjI allI impI)
  show "length (createHeartShape center radius angle) = 32"
    using createHeartShape_nth by blast
next
  fix i :: nat assume "i < 32"
  then have "createHeartShape center radius angle ! i =
      heart_sample center radius (cos angle) (sin angle) (int i)"
    using createHeartShape_nth by blast
  then show "createHeartShape center radius angle ! i =
        (let t = real i * 2 * pi / 32;
             x = sin t ^ 3;
             y = - (13 * cos t - 5 * cos (2 * t) - 2 * cos (3 * t) - cos (4 * t)) / 16
         in Point2f (pt_x center + radius * (x * cos angle - y * sin angle))
                    (pt_y center + radius * (x * sin angle + y * cos angle)))"
    by (simp add: heart_sample_formula)
next
  fix i :: nat assume i: "i < 32"
  define j where "j = nat ((32 - int i) mod 32)"
  have j: "j < 32" "int j = (32 - int i) mod 32" by (simp_all add: j_def nat_less_iff)
  have nth: "createHeartShape center radius 0 ! k = heart_sample center radius 1 0 (int k)"
    if "k < 32" for k
    using createHeartShape_nth[of center radius 0] that by simp
  have "pt_x (heart_sample center radius 1 0 (int j)) - pt_x center =
           - (pt_x (heart_sample center radius 1 0 (int i)) - pt_x center)
       \<and> pt_y (heart_sample center radius 1 0 (int j)) - pt_y center =
           pt_y (heart_sample center radius 1 0 (int i)) - pt_y center"
    using i by (intro heart_sample_mirror j(2)) auto
  then show "\<exists>j < 32.
         pt_x (createHeartShape center radius 0 ! j) - pt_x center =
           - (pt_x (createHeartShape center radius 0 ! i) - pt_x center)
       \<and> pt_y (createHeartShape center radius 0 ! j) - pt_y center =
           pt_y (createHeartShape center radius 0 ! i) - pt_y center"
    using j(1) i by (intro exI[of _ j]) (simp only: nth simp_thms)
qed

text \<open>Centre \<open>(3, 4)\<close>, radius 2, angle 0: the samples 0 and 8, and the mirror image of sample 8.\<close>

theorem createHeartShape_spec_witness:
  "createHeartShape (Point2f 3 4) 2 0 ! 0 = Point2f 3 (27 / 8)
   \<and> createHeartShape (Point2f 3 4) 2 0 ! 8 = Point2f 5 (7 / 2)
   \<and> (\<exists>j < 32. pt_x (createHeartShape (Point2f 3 4) 2 0 ! j) = 1
          \<and> pt_y (createHeartShape (Point2f 3 4) 2 0 ! j) = 7 / 2)"
proof -
  have a: "createHeartShape (Point2f 3 4) 2 0 ! 0 =
        (let t = real 0 * 2 * pi / 32;
             x = sin t ^ 3;
             y = - (13 * cos t - 5 * cos (2 * t) - 2 * cos (3 * t) - cos (4 * t)) / 16
         in Point2f (pt_x (Point2f 3 4) + 2 * (x * cos 0 - y * sin 0))
                    (pt_y (Point2f 3 4) + 2 * (x * sin 0 + y * cos 0)))"
    using createHeartShape_spec[of "Point2f 3 4" 2 0, THEN conjunct2, THEN conjunct1, rule_format, of 0]
    by simp
  have b: "createHeartShape (Point2f 3 4) 2 0 ! 8 =
        (let t = real 8 * 2 * pi / 32;
             x = sin t ^ 3;
             y = - (13 * cos t - 5 * cos (2 * t) - 2 * cos (3 * t) - cos (4 * t)) / 16
         in Point2f (pt_x (Point2f 3 4) + 2 * (x * cos 0 - y * sin 0))
                    (pt_y (Point2f 3 4) + 2 * (x * sin 0 + y * cos 0)))"
    using createHeartShape_spec[of "Point2f 3 4" 2 0, THEN conjunct2, THEN conjunct1, rule_format, of 8]
    by simp
  have c3: "cos (3 * pi / 2) = 0"
    using cos_add[of pi "pi / 2"] by simp
  have b': "createHeartShape (Point2f 3 4) 2 0 ! 8 = Point2f 5 (7 / 2)"
    using b c3 by (simp add: Let_def)
  obtain j where j: "j < 32"
     "pt_x (createHeartShape (Point2f 3 4) 2 0 ! j) - pt_x (Point2f 3 4) =
           - (pt_x (createHeartShape (Point2f 3 4) 2 0 ! 8) - pt_x (Point2f 3 4))"
     "pt_y (createHeartShape (Point2f 3 4) 2 0 ! j) - pt_y (Point2f 3 4) =
           pt_y (createHeartShape (Point2f 3 4) 2 0 ! 8) - pt_y (Point2f 3 4)"
    using createHeartShape_spec[of "Point2f 3 4" 2 0, THEN conjunct2, THEN conjunct2, rule_format, of 8]
    by auto
  have "pt_x (createHeartShape (Point2f 3 4) 2 0 ! j) = 1"
    using j(2) unfolding b' by simp
  moreover have "pt_y (createHeartShape (Point2f 3 4) 2 0 ! j) = 7 / 2"
    using j(3) unfolding b' by simp
  ultimately have c: "\<exists>j < 32. pt_x (createHeartShape (Point2f 3 4) 2 0 ! j) = 1
          \<and> pt_y (createHeartShape (Point2f 3 4) 2 0 ! j) = 7 / 2"
    using j(1) by blast
  show ?thesis using a b' c by (simp add: Let_def)
qed

lemma disk_loop:
  "length (for_loop 0 12 (\<lambda>i circle. circle[nat i := disk_sample center radius i])
             (replicate 12 (Point2f 0 0))) = 12 \<and>
   (\<forall>k < 12. for_loop 0 12 (\<lambda>i circle. circle[nat i := disk_sample center radius i])
             (replicate 12 (Point2f 0 0)) ! k = disk_sample center radius (int k))"
  using for_loop_fill[of 0 12 "disk_sample center radius" "replicate 12 (Point2f 0 0)"]
  by simp

lemma disk_sample_on_circle:
  "(pt_x (disk_sample center radius i) - pt_x center)\<^sup>2
     + (pt_y (disk_sample center radius i) - pt_y center)\<^sup>2 = radius\<^sup>2"
proof -
  define t where "t = real_of_int i / (2 * pi) * 12"
  have "(radius * cos t)\<^sup>2 + (radius * sin t)\<^sup>2 = radius\<^sup>2 * ((cos t)\<^sup>2 + (sin t)\<^sup>2)"
    by (simp only: power_mult_distrib distrib_left)
  also have "\<dots> = radius\<^sup>2" by simp
  finally have "(radius * cos t)\<^sup>2 + (radius * sin t)\<^sup>2 = radius\<^sup>2" .
  then show ?thesis
    unfolding disk_sample_def Let_def t_def[symmetric]
    by (simp add: pt_add_def pt_scale_def)
qed

lemma createPolygon_DISK_eq:
  assumes "length points = COUNT V"
  shows "createPolygon V points DISK right =
     Inr (for_loop 0 12
            (\<lambda>i circle. circle[nat i := disk_sample
               (Point2f ((pt_x (points ! (if right then 62 else 58))
                  + pt_x (points ! (if right then 2 else 10))) / 2)
                  (pt_y (points ! (if right then 62 else 58))))
               (\<bar>pt_x (points ! (if right then 62 else 58))
                  - pt_x (points ! (if right then 2 else 10))\<bar> / 2) i])
            (replicate 12 (Point2f 0 0)))"
  using assms by (simp add: createPolygon_def Let_def)

text \<open>
  Claim C1, as amended. For every landmark set of the required length and either side flag,
  \<open>createPolygon\<close> with shape \<open>DISK\<close> returns 12 points, all on the circle whose centre
  has the x-coordinate of the midpoint of the two selected landmark points and the
  y-coordinate of the second of them (landmark 62, or 58 on the left), and whose radius is
  half their horizontal distance; sample 0 lies at angle 0. Nothing is said about the
  angles of the other samples.
\<close>

theorem createPolygon_DISK:
  assumes "length points = COUNT V"
  shows "\<exists>circle. createPolygon V points DISK right = Inr circle \<and> length circle = 12
     \<and> (let p02 = points ! (if right then 2 else 10);
             p62 = points ! (if right then 62 else 58);
             cx = (pt_x p62 + pt_x p02) / 2;
             cy = pt_y p62;
             radius = \<bar>pt_x p62 - pt_x p02\<bar> / 2
         in circle ! 0 = Point2f (cx + radius) cy
            \<and> (\<forall>i < 12. (pt_x (circle ! i) - cx)\<^sup>2 + (pt_y (circle ! i) - cy)\<^sup>2 = radius\<^sup>2))"
proof -
  define p02 where "p02 = points ! (if right then 2 else 10)"
  define p62 where "p62 = points ! (if right then 62 else 58)"
  define center where "center = Point2f ((pt_x p62 + pt_x p02) / 2) (pt_y p62)"
  define radius where "radius = \<bar>pt_x p62 - pt_x p02\<bar> / 2"
  define circle where "circle = for_loop 0 12 (\<lambda>i circle. circle[nat i := disk_sample center radius i])
             (replicate 12 (Point2f 0 0))"
  have res: "createPolygon V points DISK right = Inr circle"
    using createPolygon_DISK_eq[OF assms, of right]
    by (simp add: circle_def center_def radius_def p02_def p62_def)
  have len: "length circle = 12" and nth: "\<And>k. k < 12 \<Longrightarrow> circle ! k = disk_sample center radius (int k)"
    using disk_loop[of center radius] by (simp_all add: circle_def)
  have zero: "circle ! 0 = Point2f (pt_x center + radius) (pt_y center)"
    using nth[of 0] by (simp add: disk_sample_def pt_add_def pt_scale_def)
  have on: "(pt_x (circle ! i) - pt_x center)\<^sup>2 + (pt_y (circle ! i) - pt_y center)\<^sup>2 = radius\<^sup>2"
    if "i < 12" for i
    using nth[OF that] by (simp only: disk_sample_on_circle)
  show ?thesis
    using res len zero on
    by (intro exI[of _ circle]) (simp add: Let_def center_def radius_def p02_def p62_def)
qed

text \<open>Landmarks \<open>(0, 2)\<close> and \<open>(2, 0)\<close>: the circle of radius 1 around \<open>(1, 0)\<close>.\<close>

theorem createPolygon_DISK_witness:
  "length ((replicate 81 (Point2f 0 0))[2 := Point2f 0 2, 62 := Point2f 2 0]) = COUNT venus_stub
   \<and> (\<exists>circle. createPolygon venus_stub
          ((replicate 81 (Point2f 0 0))[2 := Point2f 0 2, 62 := Point2f 2 0]) DISK True = Inr circle
        \<and> length circle = 12 \<and> circle ! 0 = Point2f 2 0
        \<and> (pt_x (circle ! 1) - 1)\<^sup>2 + (pt_y (circle ! 1))\<^sup>2 = 1)"
proof -
  let ?pts = "(replicate 81 (Point2f 0 0))[2 := Point2f 0 2, 62 := Point2f 2 0]"
  have len: "length ?pts = COUNT venus_stub" by (simp add: venus_stub_def)
  obtain circle where c: "createPolygon venus_stub ?pts DISK True = Inr circle" "length circle = 12"
    "(let p02 = ?pts ! (if True then 2 else 10);
             p62 = ?pts ! (if True then 62 else 58);
             cx = (pt_x p62 + pt_x p02) / 2;
             cy = pt_y p62;
             radius = \<bar>pt_x p62 - pt_x p02\<bar> / 2
         in circle ! 0 = Point2f (cx + radius) cy
            \<and> (\<forall>i < 12. (pt_x (circle ! i) - cx)\<^sup>2 + (pt_y (circle ! i) - cy)\<^sup>2 = radius\<^sup>2))"
    using createPolygon_DISK[OF len, of True] by blast
  have "circle ! 0 = Point2f 2 0 \<and> (pt_x (circle ! 1) - 1)\<^sup>2 + (pt_y (circle ! 1))\<^sup>2 = 1"
    using c(3) by (simp add: Let_def)
  then show ?thesis using len c(1,2) by blast
qed

lemma pi_ge_3: "3 \<le> pi"
proof -
  have "sin (pi / 6) \<le> pi / 6" by (intro sin_x_le_x) simp
  then have "1 / 2 \<le> pi / 6" by (simp only: sin_30)
  then show ?thesis by simp
qed

lemma six_pi_le: "6 / pi \<le> pi"
proof -
  have p3: "3 \<le> pi" by (rule pi_ge_3)
  have "3 * 3 \<le> pi * pi" using p3 by (intro mult_mono) auto
  then have "6 \<le> pi * pi" by simp
  then show ?thesis using p3 by (simp add: divide_le_eq)
qed

lemma cos_6_pi_neq: "cos (6 / pi) \<noteq> cos (pi / 6)"
proof
  assume eq: "cos (6 / pi) = cos (pi / 6)"
  have p3: "3 \<le> pi" by (rule pi_ge_3)
  have p4: "pi < 4" by (rule pi_less_4)
  have "6 / pi = pi / 6"
  proof (rule cos_inj_pi)
    show "0 \<le> 6 / pi" by simp
    show "6 / pi \<le> pi" by (rule six_pi_le)
    show "0 \<le> pi / 6" by simp
    show "pi / 6 \<le> pi" by simp
    show "cos (6 / pi) = cos (pi / 6)" by (rule eq)
  qed
  then have "6 * 6 = pi * pi" using p3 by (simp add: divide_simps)
  moreover have "pi * pi < 4 * 4" using p3 p4 by (intro mult_strict_mono) auto
  ultimately show False by simp
qed

text \<open>
  Claim C1 as stated fails twice. With the landmarks \<open>(0, 2)\<close> and \<open>(2, 0)\<close> sample 0
  is \<open>(2, 0)\<close>, not the point \<open>(2, 1)\<close> at angle 0 around the midpoint. With the
  landmarks \<open>(0, 0)\<close> and \<open>(2, 0)\<close>, where the two centres agree, sample 1 lies at the
  angle \<open>1 / (2 * pi) * 12 = 6 / pi\<close>, not at \<open>2 * pi / 12\<close>.
\<close>

theorem createPolygon_DISK_counterexample:
  "createPolygon venus_stub ((replicate 81 (Point2f 0 0))[2 := Point2f 0 2, 62 := Point2f 2 0])
      DISK True \<noteq> Inr (spec_disk (Point2f 0 2) (Point2f 2 0))
   \<and> createPolygon venus_stub ((replicate 81 (Point2f 0 0))[62 := Point2f 2 0])
      DISK True \<noteq> Inr (spec_disk (Point2f 0 0) (Point2f 2 0))"
proof
  let ?pts = "(replicate 81 (Point2f 0 0))[2 := Point2f 0 2, 62 := Point2f 2 0]"
  have len: "length ?pts = COUNT venus_stub" by (simp add: venus_stub_def)
  show "createPolygon venus_stub ?pts DISK True \<noteq> Inr (spec_disk (Point2f 0 2) (Point2f 2 0))"
  proof
    assume a: "createPolygon venus_stub ?pts DISK True = Inr (spec_disk (Point2f 0 2) (Point2f 2 0))"
    have "spec_disk (Point2f 0 2) (Point2f 2 0) ! 0 = disk_sample (Point2f 1 0) 1 0"
      using a disk_loop[of "Point2f 1 0" 1]
      unfolding createPolygon_DISK_eq[OF len] by simp
    then show False
      by (simp add: spec_disk_def disk_sample_def pt_add_def pt_scale_def pt_div_def)
  qed
next
  let ?pts = "(replicate 81 (Point2f 0 0))[62 := Point2f 2 0]"
  have len: "length ?pts = COUNT venus_stub" by (simp add: venus_stub_def)
  show "createPolygon venus_stub ?pts DISK True \<noteq> Inr (spec_disk (Point2f 0 0) (Point2f 2 0))"
  proof
    assume a: "createPolygon venus_stub ?pts DISK True = Inr (spec_disk (Point2f 0 0) (Point2f 2 0))"
    have "spec_disk (Point2f 0 0) (Point2f 2 0) ! 1 = disk_sample (Point2f 1 0) 1 1"
      using a disk_loop[of "Point2f 1 0" 1]
      unfolding createPolygon_DISK_eq[OF len] by simp
    moreover have "[0..<12] ! 1 = (1::nat)" by simp
    ultimately have "cos (pi / 6) = cos (6 / pi)"
      by (simp add: spec_disk_def disk_sample_def pt_add_def pt_scale_def pt_div_def Let_def)
    then show False using cos_6_pi_neq by simp
  qed
qed


lemma seagull_step_length: "length (seagull_step points knot down i seagull) = length seagull"
  by (simp add: seagull_step_def Let_def)

lemma seagull_loop_length:
  "length seagull0 = 10 \<Longrightarrow> length (for_loop 1 5 (seagull_step points knot down) seagull0) = 10"
  by (rule for_loop_inv) (simp_all add: seagull_step_length)

text \<open>
  Claim C3, as amended. For every landmark set of the required length and either side flag,
  \<open>createPolygon\<close> returns 7 points for \<open>OVAL\<close>, 7 points for \<open>TRIANGLE\<close> and 10
  points for \<open>SEAGULL\<close>.
\<close>

theorem createPolygon_sizes:
  assumes "length points = COUNT V"
  shows "(\<exists>polygon. createPolygon V points OVAL right = Inr polygon \<and> length polygon = 7)
     \<and> (\<exists>polygon. createPolygon V points TRIANGLE right = Inr polygon \<and> length polygon = 7)
     \<and> (\<exists>polygon. createPolygon V points SEAGULL right = Inr polygon \<and> length polygon = 10)"
proof (intro conjI)
  show "\<exists>polygon. createPolygon V points OVAL right = Inr polygon \<and> length polygon = 7"
    using assms by (simp add: createPolygon_def Let_def)
  show "\<exists>polygon. createPolygon V points TRIANGLE right = Inr polygon \<and> length polygon = 7"
    using assms by (simp add: createPolygon_def Let_def)
  show "\<exists>polygon. createPolygon V points SEAGULL right = Inr polygon \<and> length polygon = 10"
    using assms by (simp add: createPolygon_def Let_def seagull_loop_length)
qed

text \<open>81 landmarks, both sides.\<close>

theorem createPolygon_sizes_witness:
  "length (replicate 81 (Point2f 1 2)) = COUNT venus_stub
   \<and> (\<exists>polygon. createPolygon venus_stub (replicate 81 (Point2f 1 2)) OVAL True = Inr polygon
         \<and> length polygon = 7)
   \<and> (\<exists>polygon. createPolygon venus_stub (replicate 81 (Point2f 1 2)) TRIANGLE False = Inr polygon
         \<and> length polygon = 7)
   \<and> (\<exists>polygon. createPolygon venus_stub (replicate 81 (Point2f 1 2)) SEAGULL True = Inr polygon
         \<and> length polygon = 10)"
proof -
  have len: "length (replicate 81 (Point2f 1 2)) = COUNT venus_stub"
    by (simp add: venus_stub_def)
  show ?thesis
    using len createPolygon_sizes[OF len, of True] createPolygon_sizes[OF len, of False]
    by blast
qed

text \<open>Claim C3 as stated fails for \<open>TRIANGLE\<close>: the polygon has 7 points, not 6.\<close>

theorem createPolygon_TRIANGLE_counterexample:
  "map_sum id length (createPolygon venus_stub (replicate 81 (Point2f 1 2)) TRIANGLE True) = Inr 7
   \<and> map_sum id length (createPolygon venus_stub (replicate 81 (Point2f 1 2)) TRIANGLE True) \<noteq> Inr 6"
  by (simp add: createPolygon_def Let_def venus_stub_def)

section \<open>Compositor: proofs\<close>

lemma rect_and_range:
  assumes "rect = rect_and (Rect 0 0 (cols dst) (rows dst))
                    (Rect (pti_x origin) (pti_y origin) (cols src) (rows src))"
  shows "rect_y rect \<le> rect_y rect + rect_height rect"
    and "rect_x rect \<le> rect_x rect + rect_width rect"
    and "(rect_y rect \<le> r \<and> r < rect_y rect + rect_height rect
          \<and> rect_x rect \<le> c \<and> c < rect_x rect + rect_width rect) = overlap dst src origin r c"
proof -
  let ?w = "min (0 + cols dst) (pti_x origin + cols src) - max 0 (pti_x origin)"
  let ?h = "min (0 + rows dst) (pti_y origin + rows src) - max 0 (pti_y origin)"
  show "rect_y rect \<le> rect_y rect + rect_height rect"
    unfolding assms rect_and_def Let_def by (cases "?w \<le> 0 \<or> ?h \<le> 0") auto
  show "rect_x rect \<le> rect_x rect + rect_width rect"
    unfolding assms rect_and_def Let_def by (cases "?w \<le> 0 \<or> ?h \<le> 0") auto
  show "(rect_y rect \<le> r \<and> r < rect_y rect + rect_height rect
          \<and> rect_x rect \<le> c \<and> c < rect_x rect + rect_width rect) = overlap dst src origin r c"
  proof (cases "?w \<le> 0 \<or> ?h \<le> 0")
    case True
    then have "rect = Rect 0 0 0 0" unfolding assms rect_and_def Let_def by simp
    moreover have "\<not> overlap dst src origin r c"
      using True unfolding overlap_def inside_def by auto
    ultimately show ?thesis by simp
  next
    case False
    then have "rect = Rect (max 0 (pti_x origin)) (max 0 (pti_y origin)) ?w ?h"
      unfolding assms rect_and_def Let_def by simp
    then show ?thesis unfolding overlap_def inside_def by auto
  qed
qed

lemma mix_at_ok:
  assumes "dims_ok s" "mtype s = T" "mtype src = T" "inside s r c"
    "inside src (r - pti_y origin) (c - pti_x origin)"
  shows "\<exists>s'. mix_at mix T src origin amount r c s = Inr s' \<and> same_shape s' s
    \<and> (\<forall>r' c'. inside s r' c' \<longrightarrow> px s' r' c' =
          (if (r', c') = (r, c)
           then mix (px s r c) (px src (r - pti_y origin) (c - pti_x origin)) amount
           else px s r' c'))"
proof -
  let ?v = "mix (px s r c) (px src (r - pti_y origin) (c - pti_x origin)) amount"
  have eq: "mix_at mix T src origin amount r c s = Mat_put T s r c ?v"
    using assms by (simp add: mix_at_def Mat_at_def)
  obtain s' where s': "Mat_put T s r c ?v = Inr s'" "same_shape s' s" "px s' r c = ?v"
    "\<forall>r' c'. inside s r' c' \<longrightarrow> (r', c') \<noteq> (r, c) \<longrightarrow> px s' r' c' = px s r' c'"
    using Mat_put_ok[OF assms(1,2,4), of ?v] by blast
  have "\<forall>r' c'. inside s r' c' \<longrightarrow> px s' r' c' = (if (r', c') = (r, c) then ?v else px s r' c')"
    using s'(3,4) by auto
  then show ?thesis using eq s'(1,2) by auto
qed

text \<open>The two loops of both blends: every pixel of the overlap that passes \<open>G\<close> is mixed.\<close>

lemma gated_mix_loops:
  assumes dst: "dims_ok dst" "mtype dst = T" and src: "mtype src = T"
    and rect: "rect = rect_and (Rect 0 0 (cols dst) (rows dst))
                    (Rect (pti_x origin) (pti_y origin) (cols src) (rows src))"
    and body: "\<And>r c s. overlap dst src origin r c \<Longrightarrow>
                 body r c s = (if G r c then mix_at mix T src origin amount r c s else Inr s)"
  shows "\<exists>res. for_loop_E (rect_y rect) (rect_y rect + rect_height rect)
            (\<lambda>r. for_loop_E (rect_x rect) (rect_x rect + rect_width rect) (body r)) dst = Inr res
     \<and> same_shape res dst
     \<and> (\<forall>r c. inside dst r c \<longrightarrow> px res r c =
           (if overlap dst src origin r c \<and> G r c
            then mix (px dst r c) (px src (r - pti_y origin) (c - pti_x origin)) amount
            else px dst r c))"
proof -
  let ?g = "\<lambda>r c. if G r c
            then mix (px dst r c) (px src (r - pti_y origin) (c - pti_x origin)) amount
            else px dst r c"
  let ?r0 = "rect_y rect" and ?r1 = "rect_y rect + rect_height rect"
  let ?c0 = "rect_x rect" and ?c1 = "rect_x rect + rect_width rect"
  have "\<exists>res. for_loop_E ?r0 ?r1 (\<lambda>r. for_loop_E ?c0 ?c1 (body r)) dst = Inr res \<and> same_shape res dst \<and>
    (\<forall>r c. inside dst r c \<longrightarrow> px res r c =
       (if ?r0 \<le> r \<and> r < ?r1 \<and> ?c0 \<le> c \<and> c < ?c1 then ?g r c else px dst r c))"
  proof (rule pixel_loops)
    show "?r0 \<le> ?r1" "?c0 \<le> ?c1" using rect_and_range(1,2)[OF rect] by auto
  next
    fix r c s
    assume rc: "?r0 \<le> r" "r < ?r1" "?c0 \<le> c" "c < ?c1" and sh: "same_shape s dst"
      and inv: "\<forall>r' c'. inside dst r' c' \<longrightarrow> px s r' c' =
              (if (?r0 \<le> r' \<and> r' < r \<and> ?c0 \<le> c' \<and> c' < ?c1) \<or> (r' = r \<and> ?c0 \<le> c' \<and> c' < c)
               then ?g r' c' else px dst r' c')"
    have ov: "overlap dst src origin r c" using rect_and_range(3)[OF rect, of r c] rc by simp
    then have ins: "inside dst r c" "inside src (r - pti_y origin) (c - pti_x origin)"
      by (simp_all add: overlap_def)
    have here: "px s r c = px dst r c" using inv ins(1) by auto
    show "\<exists>s'. body r c s = Inr s' \<and> same_shape s' dst \<and>
            (\<forall>r' c'. inside dst r' c' \<longrightarrow> px s' r' c' = (if (r', c') = (r, c) then ?g r c else px s r' c'))"
    proof (cases "G r c")
      case False
      then have "body r c s = Inr s" using body[OF ov] by simp
      then show ?thesis using sh here False by auto
    next
      case True
      have d: "dims_ok s" using sh dst(1) by (rule same_shape_dims_ok)
      have t: "mtype s = T" using sh dst(2) by (simp add: same_shape_def)
      have i: "inside s r c" using ins(1) same_shape_inside[OF sh] by simp
      obtain s' where s': "mix_at mix T src origin amount r c s = Inr s'" "same_shape s' s"
        "\<forall>r' c'. inside s r' c' \<longrightarrow> px s' r' c' =
          (if (r', c') = (r, c)
           then mix (px s r c) (px src (r - pti_y origin) (c - pti_x origin)) amount
           else px s r' c')"
        using mix_at_ok[OF d t src i ins(2), of mix amount] by blast
      have "body r c s = Inr s'" using body[OF ov] True s'(1) by simp
      moreover have "same_shape s' dst" using s'(2) sh by (rule same_shape_trans)
      moreover have "\<forall>r' c'. inside dst r' c' \<longrightarrow> px s' r' c' = (if (r', c') = (r, c) then ?g r c else px s r' c')"
        using s'(3) same_shape_inside[OF sh] True here by auto
      ultimately show ?thesis by blast
    qed
  qed
  then obtain res where res: "for_loop_E ?r0 ?r1 (\<lambda>r. for_loop_E ?c0 ?c1 (body r)) dst = Inr res"
    "same_shape res dst"
    "\<forall>r c. inside dst r c \<longrightarrow> px res r c =
       (if ?r0 \<le> r \<and> r < ?r1 \<and> ?c0 \<le> c \<and> c < ?c1 then ?g r c else px dst r c)"
    by blast
  have "\<forall>r c. inside dst r c \<longrightarrow> px res r c =
           (if overlap dst src origin r c \<and> G r c
            then mix (px dst r c) (px src (r - pti_y origin) (c - pti_x origin)) amount
            else px dst r c)"
    using res(3) rect_and_range(3)[OF rect] by auto
  then show ?thesis using res(1,2) by blast
qed

lemma blend_ok:
  assumes "dims_ok dst" "\<not> Mat_empty src" "mtype src = mtype dst"
    "mtype dst = CV_8UC4 \<or> mtype dst = CV_32FC4"
  shows "\<exists>res. blend mix dst src origin amount = Inr res \<and> same_shape res dst
     \<and> (\<forall>r c. inside dst r c \<longrightarrow> px res r c =
           (if overlap dst src origin r c
            then mix (px dst r c) (px src (r - pti_y origin) (c - pti_x origin)) amount
            else px dst r c))"
proof -
  define rect where "rect = rect_and (Rect 0 0 (cols dst) (rows dst))
                    (Rect (pti_x origin) (pti_y origin) (cols src) (rows src))"
  have loops: "\<exists>res. for_loop_E (rect_y rect) (rect_y rect + rect_height rect)
            (\<lambda>r. for_loop_E (rect_x rect) (rect_x rect + rect_width rect)
               (\<lambda>c. mix_at mix T src origin amount r c)) dst = Inr res
     \<and> same_shape res dst
     \<and> (\<forall>r c. inside dst r c \<longrightarrow> px res r c =
           (if overlap dst src origin r c \<and> True
            then mix (px dst r c) (px src (r - pti_y origin) (c - pti_x origin)) amount
            else px dst r c))" if "mtype dst = T" for T
    using assms(1) that assms(3)[unfolded that] rect_def
    by (rule gated_mix_loops) simp
  show ?thesis
  proof (cases "mtype dst = CV_8UC4")
    case True
    have "blend mix dst src origin amount =
        for_loop_E (rect_y rect) (rect_y rect + rect_height rect)
            (\<lambda>r. for_loop_E (rect_x rect) (rect_x rect + rect_width rect)
               (\<lambda>c. mix_at mix CV_8UC4 src origin amount r c)) dst"
      using assms(2,3) True by (simp add: blend_def Let_def rect_def)
    then show ?thesis using loops[OF True] by simp
  next
    case False
    then have t: "mtype dst = CV_32FC4" using assms(4) by simp
    have "blend mix dst src origin amount =
        for_loop_E (rect_y rect) (rect_y rect + rect_height rect)
            (\<lambda>r. for_loop_E (rect_x rect) (rect_x rect + rect_width rect)
               (\<lambda>c. mix_at mix CV_32FC4 src origin amount r c)) dst"
      using assms(2,3) t by (simp add: blend_def Let_def rect_def)
    then show ?thesis using loops[OF t] by simp
  qed
qed


lemma rect_contains_mask:
  "rect_contains (Rect 0 0 (cols msk) (rows msk)) (Point2i mx my) = inside msk my mx"
  by (auto simp: rect_contains_def inside_def)

lemma blend_masked_pixel_supported:
  assumes "mtype msk = CV_8UC1" "mtype dst = T" "T = CV_8UC4 \<or> T = CV_32FC3 \<or> T = CV_32FC4"
  shows "blend_masked_pixel mix dst src msk origin amount r c s =
     (if mask_gate src msk origin r c then mix_at mix T src origin amount r c s else Inr s)"
  using assms
  by (auto simp: blend_masked_pixel_def mask_gate_def Let_def rect_contains_mask Mat_at_def)

lemma blend_masked_pixel_unsupported:
  assumes "mtype msk = CV_8UC1"
    "\<not> (mtype dst = CV_8UC4 \<or> mtype dst = CV_32FC3 \<or> mtype dst = CV_32FC4)"
  shows "blend_masked_pixel mix dst src msk origin amount r c s =
     (if \<not> mask_gate src msk origin r c then Inr s else Inl AssertionFailed)"
  using assms
  by (auto simp: blend_masked_pixel_def mask_gate_def Let_def rect_contains_mask Mat_at_def)

lemma for_loop_E_const2:
  "for_loop_E r0 r1 (\<lambda>r. for_loop_E c0 c1 (\<lambda>c s. if P r c then Inr s else Inl e)) s =
     (if \<forall>r c. r0 \<le> r \<and> r < r1 \<and> c0 \<le> c \<and> c < c1 \<longrightarrow> P r c then Inr s else Inl e)"
proof -
  have inner: "for_loop_E c0 c1 (\<lambda>c s. if P r c then Inr s else Inl e) =
      (\<lambda>s. if (\<forall>c. c0 \<le> c \<and> c < c1 \<longrightarrow> P r c) then Inr s else Inl e)" for r
    by (rule ext) (rule for_loop_E_const)
  have "for_loop_E r0 r1 (\<lambda>r. for_loop_E c0 c1 (\<lambda>c s. if P r c then Inr s else Inl e)) s =
     (if \<forall>r. r0 \<le> r \<and> r < r1 \<longrightarrow> (\<forall>c. c0 \<le> c \<and> c < c1 \<longrightarrow> P r c) then Inr s else Inl e)"
    unfolding inner by (rule for_loop_E_const)
  also have "\<dots> = (if \<forall>r c. r0 \<le> r \<and> r < r1 \<and> c0 \<le> c \<and> c < c1 \<longrightarrow> P r c then Inr s else Inl e)"
    by auto
  finally show ?thesis .
qed

lemma blend_masked_ok:
  assumes "dims_ok dst" "mtype src = mtype dst" "mtype msk = CV_8UC1"
    "mtype dst = CV_8UC4 \<or> mtype dst = CV_32FC3 \<or> mtype dst = CV_32FC4"
  shows "\<exists>res. blend_masked mix dst src msk origin amount = Inr res \<and> same_shape res dst
     \<and> (\<forall>r c. inside dst r c \<longrightarrow> px res r c =
           (if overlap dst src origin r c \<and> mask_gate src msk origin r c
            then mix (px dst r c) (px src (r - pti_y origin) (c - pti_x origin)) amount
            else px dst r c))"
proof -
  define rect where "rect = rect_and (Rect 0 0 (cols dst) (rows dst))
                    (Rect (pti_x origin) (pti_y origin) (cols src) (rows src))"
  have eq: "blend_masked mix dst src msk origin amount =
        for_loop_E (rect_y rect) (rect_y rect + rect_height rect)
            (\<lambda>r. for_loop_E (rect_x rect) (rect_x rect + rect_width rect)
               (\<lambda>c. blend_masked_pixel mix dst src msk origin amount r c)) dst"
    using assms(2,3) by (simp add: blend_masked_def Let_def rect_def)
  show ?thesis
    unfolding eq
    using assms(1) refl[of "mtype dst"] assms(2) rect_def
    by (rule gated_mix_loops) (rule blend_masked_pixel_supported[OF assms(3) refl assms(4)])
qed

lemma blend_masked_unsupported:
  assumes "mtype src = mtype dst" "mtype msk = CV_8UC1"
    "\<not> (mtype dst = CV_8UC4 \<or> mtype dst = CV_32FC3 \<or> mtype dst = CV_32FC4)"
  shows "blend_masked mix dst src msk origin amount =
     (if \<exists>r c. overlap dst src origin r c \<and> mask_gate src msk origin r c
      then Inl AssertionFailed else Inr dst)"
proof -
  define rect where "rect = rect_and (Rect 0 0 (cols dst) (rows dst))
                    (Rect (pti_x origin) (pti_y origin) (cols src) (rows src))"
  have body: "(\<lambda>r. for_loop_E (rect_x rect) (rect_x rect + rect_width rect)
               (\<lambda>c. blend_masked_pixel mix dst src msk origin amount r c)) =
     (\<lambda>r. for_loop_E (rect_x rect) (rect_x rect + rect_width rect)
               (\<lambda>c s. if \<not> mask_gate src msk origin r c then Inr s else Inl AssertionFailed))"
    by (intro ext arg_cong[where f = "for_loop_E _ _"])
       (simp add: blend_masked_pixel_unsupported[OF assms(2,3)])
  have "blend_masked mix dst src msk origin amount =
        for_loop_E (rect_y rect) (rect_y rect + rect_height rect)
            (\<lambda>r. for_loop_E (rect_x rect) (rect_x rect + rect_width rect)
               (\<lambda>c. blend_masked_pixel mix dst src msk origin amount r c)) dst"
    using assms(1,2) by (simp add: blend_masked_def Let_def rect_def)
  also have "\<dots> = (if \<forall>r c. rect_y rect \<le> r \<and> r < rect_y rect + rect_height rect
        \<and> rect_x rect \<le> c \<and> c < rect_x rect + rect_width rect \<longrightarrow> \<not> mask_gate src msk origin r c
      then Inr dst else Inl AssertionFailed)"
    unfolding body by (rule for_loop_E_const2)
  also have "\<dots> = (if \<exists>r c. overlap dst src origin r c \<and> mask_gate src msk origin r c
      then Inl AssertionFailed else Inr dst)"
    using rect_and_range(3)[OF rect_def] by auto
  finally show ?thesis .
qed

lemma cvRound_of_int: "cvRound (real_of_int n) = n"
  by (simp add: cvRound_def Let_def)

lemma u8_roundtrip:
  "word_of_int (max 0 (min 255 (cvRound (real (unat (d :: uint8_t)))))) = d"
proof -
  have "real (unat d) = real_of_int (int (unat d))" by simp
  then have r: "cvRound (real (unat d)) = int (unat d)" by (simp only: cvRound_of_int)
  have "unat d < 256" using unsigned_less[of d] by simp
  then have "int (unat d) \<le> 255" and "0 \<le> int (unat d)" by linarith+
  then have "max 0 (min 255 (int (unat d))) = int (unat d)" by (simp only: min_absorb2 max_absorb2)
  then have "word_of_int (max 0 (min 255 (cvRound (real (unat d))))) = (word_of_int (int (unat d)) :: uint8_t)"
    by (simp only: r)
  also have "\<dots> = d" by simp
  finally show ?thesis .
qed

lemma spec_mix_sample_0:
  "sample_depth d = sample_depth s \<Longrightarrow> spec_mix_sample 0 d s = d"
proof (cases d; cases s)
  fix x y assume "d = U8 x" "s = U8 y"
  then show "spec_mix_sample 0 d s = d"
    by (simp only: spec_mix_sample.simps spec_lerp_def mult_zero_right add_0_right u8_roundtrip)
qed (simp_all add: spec_lerp_def)

lemma spec_mix_sample_1:
  "sample_depth d = sample_depth s \<Longrightarrow> spec_mix_sample 1 d s = s"
proof (cases d; cases s)
  fix x y assume "d = U8 x" "s = U8 y"
  moreover have "real (unat x) + (real (unat y) - real (unat x)) * 1 = real (unat y)" by simp
  ultimately show "spec_mix_sample 1 d s = s"
    by (simp only: spec_mix_sample.simps spec_lerp_def u8_roundtrip)
qed (simp_all add: spec_lerp_def)

lemma spec_mix_0:
  assumes "pixel_ok T d" "pixel_ok T s"
  shows "spec_mix d s 0 = d"
proof (rule nth_equalityI)
  show len: "length (spec_mix d s 0) = length d"
    using assms by (simp add: spec_mix_def pixel_ok_def)
  fix i assume "i < length (spec_mix d s 0)"
  then have i: "i < length d" "i < length s" using assms len by (simp_all add: pixel_ok_def)
  then have "sample_depth (d ! i) = sample_depth (s ! i)"
    using assms by (simp add: pixel_ok_def list_all_length)
  then show "spec_mix d s 0 ! i = d ! i"
    using i by (simp add: spec_mix_def spec_mix_sample_0)
qed

lemma spec_mix_1:
  assumes "pixel_ok T d" "pixel_ok T s"
  shows "spec_mix d s 1 = s"
proof (rule nth_equalityI)
  show len: "length (spec_mix d s 1) = length s"
    using assms by (simp add: spec_mix_def pixel_ok_def)
  fix i assume "i < length (spec_mix d s 1)"
  then have i: "i < length d" "i < length s" using assms len by (simp_all add: pixel_ok_def)
  then have "sample_depth (d ! i) = sample_depth (s ! i)"
    using assms by (simp add: pixel_ok_def list_all_length)
  then show "spec_mix d s 1 ! i = s ! i"
    using i by (simp add: spec_mix_def spec_mix_sample_1)
qed

lemma px_pixel_ok:
  assumes "wf_Mat m" "inside m r c"
  shows "pixel_ok (mtype m) (px m r c)"
proof -
  have "nat (r * cols m + c) < length (data m)"
    using assms by (intro inside_index(1) wf_Mat_dims_ok)
  then show ?thesis using assms(1) by (simp add: wf_Mat_def px_def list_all_length)
qed

lemma Mat_eqI:
  fixes a b :: Mat
  assumes "dims_ok b" "same_shape a b" "\<forall>r c. inside b r c \<longrightarrow> px a r c = px b r c"
  shows "a = b"
proof -
  have "data a = data b"
  proof (rule nth_equalityI)
    show "length (data a) = length (data b)" using assms(2) by (simp add: same_shape_def)
    fix k assume "k < length (data a)"
    then have k: "int k < rows b * cols b"
      using assms(1,2) by (simp add: same_shape_def dims_ok_def)
    have cpos: "0 < cols b"
    proof (rule ccontr)
      assume "\<not> 0 < cols b"
      then have "cols b = 0" using assms(1) by (simp add: dims_ok_def)
      then show False using k by simp
    qed
    define r where "r = int k div cols b"
    define c where "c = int k mod cols b"
    have kk: "r * cols b + c = int k" by (simp add: r_def c_def)
    have c: "0 \<le> c" "c < cols b" using cpos by (simp_all add: c_def)
    have r0: "0 \<le> r" using cpos by (simp add: r_def pos_imp_zdiv_nonneg_iff)
    have r1: "r < rows b"
    proof (rule ccontr)
      assume "\<not> r < rows b"
      then have "rows b \<le> r" by simp
      then have "rows b * cols b \<le> r * cols b" using cpos by (intro mult_right_mono) auto
      then show False using k kk c by linarith
    qed
    have "inside b r c" using c r0 r1 by (simp add: inside_def)
    then have "px a r c = px b r c" using assms(3) by blast
    moreover have "cols a = cols b" using assms(2) by (simp add: same_shape_def)
    ultimately show "data a ! k = data b ! k" by (simp add: px_def kk)
  qed
  then show ?thesis using assms(2) by (simp add: same_shape_def)
qed




text \<open>
  Claim C5, with \<^verbatim>\<open>venus::mix\<close> modelled from the specification. For well-formed \<open>dst\<close>
  and \<open>src\<close> of type \<^verbatim>\<open>CV_8UC4\<close> or \<^verbatim>\<open>CV_32FC4\<close> and every origin: the rectangular
  blend with amount 0 returns \<open>dst\<close>; with amount 1 every pixel of the overlap region
  equals the pixel of \<open>src\<close>; and for every amount (and every \<open>mix\<close>) the blend returns
  a result, so it does not fault on a partial or empty intersection, in which every pixel
  outside the overlap region equals the pixel of \<open>dst\<close>.
\<close>

theorem blend_identity_laws:
  assumes "wf_Mat dst" "wf_Mat src" "\<not> Mat_empty src" "mtype src = mtype dst"
    "mtype dst = CV_8UC4 \<or> mtype dst = CV_32FC4"
  shows "blend spec_mix dst src origin 0 = Inr dst
     \<and> (\<exists>result. blend spec_mix dst src origin 1 = Inr result \<and> same_shape result dst
          \<and> (\<forall>r c. overlap dst src origin r c \<longrightarrow>
                 px result r c = px src (r - pti_y origin) (c - pti_x origin))
          \<and> (\<forall>r c. inside dst r c \<and> \<not> overlap dst src origin r c \<longrightarrow>
                 px result r c = px dst r c))
     \<and> (\<exists>result. blend mix dst src origin amount = Inr result \<and> same_shape result dst
          \<and> (\<forall>r c. inside dst r c \<and> \<not> overlap dst src origin r c \<longrightarrow>
                 px result r c = px dst r c))"
proof (intro conjI)
  have d: "dims_ok dst" using assms(1) by (rule wf_Mat_dims_ok)
  have ok: "pixel_ok (mtype dst) (px dst r c)
      \<and> pixel_ok (mtype dst) (px src (r - pti_y origin) (c - pti_x origin))"
    if "overlap dst src origin r c" for r c
    using that px_pixel_ok[OF assms(1), of r c]
      px_pixel_ok[OF assms(2), of "r - pti_y origin" "c - pti_x origin"] assms(4)
    by (simp add: overlap_def)
  show "blend spec_mix dst src origin 0 = Inr dst"
  proof -
    obtain res where res: "blend spec_mix dst src origin 0 = Inr res" "same_shape res dst"
      "\<forall>r c. inside dst r c \<longrightarrow> px res r c =
           (if overlap dst src origin r c
            then spec_mix (px dst r c) (px src (r - pti_y origin) (c - pti_x origin)) 0
            else px dst r c)"
      using blend_ok[OF d assms(3,4,5), of spec_mix origin 0] by blast
    have "\<forall>r c. inside dst r c \<longrightarrow> px res r c = px dst r c"
    proof (intro allI impI)
      fix r c assume ins: "inside dst r c"
      show "px res r c = px dst r c"
      proof (cases "overlap dst src origin r c")
        case True
        then have "spec_mix (px dst r c) (px src (r - pti_y origin) (c - pti_x origin)) 0 = px dst r c"
          using ok[OF True] by (intro spec_mix_0[of "mtype dst"]) auto
        then show ?thesis using res(3) ins True by simp
      next
        case False
        then show ?thesis using res(3) ins by simp
      qed
    qed
    then have "res = dst" using d res(2) by (intro Mat_eqI) auto
    then show ?thesis using res(1) by simp
  qed
  show "\<exists>result. blend spec_mix dst src origin 1 = Inr result \<and> same_shape result dst
          \<and> (\<forall>r c. overlap dst src origin r c \<longrightarrow>
                 px result r c = px src (r - pti_y origin) (c - pti_x origin))
          \<and> (\<forall>r c. inside dst r c \<and> \<not> overlap dst src origin r c \<longrightarrow>
                 px result r c = px dst r c)"
  proof -
    obtain res where res: "blend spec_mix dst src origin 1 = Inr res" "same_shape res dst"
      "\<forall>r c. inside dst r c \<longrightarrow> px res r c =
           (if overlap dst src origin r c
            then spec_mix (px dst r c) (px src (r - pti_y origin) (c - pti_x origin)) 1
            else px dst r c)"
      using blend_ok[OF d assms(3,4,5), of spec_mix origin 1] by blast
    have a: "\<forall>r c. overlap dst src origin r c \<longrightarrow>
                 px res r c = px src (r - pti_y origin) (c - pti_x origin)"
    proof (intro allI impI)
      fix r c assume ov: "overlap dst src origin r c"
      then have ins: "inside dst r c" by (simp add: overlap_def)
      have "spec_mix (px dst r c) (px src (r - pti_y origin) (c - pti_x origin)) 1
          = px src (r - pti_y origin) (c - pti_x origin)"
        using ok[OF ov] by (intro spec_mix_1[of "mtype dst"]) auto
      then show "px res r c = px src (r - pti_y origin) (c - pti_x origin)"
        using res(3) ins ov by simp
    qed
    have b: "\<forall>r c. inside dst r c \<and> \<not> overlap dst src origin r c \<longrightarrow> px res r c = px dst r c"
      using res(3) by simp
    show ?thesis using res(1,2) a b by blast
  qed
  show "\<exists>result. blend mix dst src origin amount = Inr result \<and> same_shape result dst
          \<and> (\<forall>r c. inside dst r c \<and> \<not> overlap dst src origin r c \<longrightarrow>
                 px result r c = px dst r c)"
  proof -
    obtain res where res: "blend mix dst src origin amount = Inr res" "same_shape res dst"
      "\<forall>r c. inside dst r c \<longrightarrow> px res r c =
           (if overlap dst src origin r c
            then mix (px dst r c) (px src (r - pti_y origin) (c - pti_x origin)) amount
            else px dst r c)"
      using blend_ok[OF d assms(3,4,5), of mix origin amount] by blast
    have "\<forall>r c. inside dst r c \<and> \<not> overlap dst src origin r c \<longrightarrow> px res r c = px dst r c"
      using res(3) by simp
    then show ?thesis using res(1,2) by blast
  qed
qed

text \<open>A source of one pixel placed on the second pixel of a destination of two.\<close>

theorem blend_identity_laws_witness:
  "wf_Mat \<lparr>rows = 1, cols = 2, mtype = CV_8UC4,
            data = [[U8 1, U8 2, U8 3, U8 4], [U8 5, U8 6, U8 7, U8 8]]\<rparr>
   \<and> wf_Mat \<lparr>rows = 1, cols = 1, mtype = CV_8UC4, data = [[U8 9, U8 10, U8 11, U8 12]]\<rparr>
   \<and> blend spec_mix
        \<lparr>rows = 1, cols = 2, mtype = CV_8UC4,
          data = [[U8 1, U8 2, U8 3, U8 4], [U8 5, U8 6, U8 7, U8 8]]\<rparr>
        \<lparr>rows = 1, cols = 1, mtype = CV_8UC4, data = [[U8 9, U8 10, U8 11, U8 12]]\<rparr>
        (Point2i 1 0) 0
      = Inr \<lparr>rows = 1, cols = 2, mtype = CV_8UC4,
          data = [[U8 1, U8 2, U8 3, U8 4], [U8 5, U8 6, U8 7, U8 8]]\<rparr>
   \<and> (\<exists>result. blend spec_mix
        \<lparr>rows = 1, cols = 2, mtype = CV_8UC4,
          data = [[U8 1, U8 2, U8 3, U8 4], [U8 5, U8 6, U8 7, U8 8]]\<rparr>
        \<lparr>rows = 1, cols = 1, mtype = CV_8UC4, data = [[U8 9, U8 10, U8 11, U8 12]]\<rparr>
        (Point2i 1 0) 1 = Inr result
      \<and> px result 0 0 = [U8 1, U8 2, U8 3, U8 4]
      \<and> px result 0 1 = [U8 9, U8 10, U8 11, U8 12])"
proof -
  let ?D = "\<lparr>rows = 1, cols = 2, mtype = CV_8UC4,
            data = [[U8 1, U8 2, U8 3, U8 4], [U8 5, U8 6, U8 7, U8 8]]\<rparr>"
  let ?S = "\<lparr>rows = 1, cols = 1, mtype = CV_8UC4, data = [[U8 9, U8 10, U8 11, U8 12]]\<rparr>"
  have wfd: "wf_Mat ?D" by (simp add: wf_Mat_def pixel_ok_def)
  have wfs: "wf_Mat ?S" by (simp add: wf_Mat_def pixel_ok_def)
  have ne: "\<not> Mat_empty ?S" by (simp add: Mat_empty_def)
  have ty: "mtype ?S = mtype ?D" "mtype ?D = CV_8UC4 \<or> mtype ?D = CV_32FC4" by simp_all
  note th = blend_identity_laws[OF wfd wfs ne ty, of "Point2i 1 0" spec_mix 0]
  have z: "blend spec_mix ?D ?S (Point2i 1 0) 0 = Inr ?D" using th by blast
  obtain result where r: "blend spec_mix ?D ?S (Point2i 1 0) 1 = Inr result"
    "\<forall>r c. overlap ?D ?S (Point2i 1 0) r c \<longrightarrow>
        px result r c = px ?S (r - pti_y (Point2i 1 0)) (c - pti_x (Point2i 1 0))"
    "\<forall>r c. inside ?D r c \<and> \<not> overlap ?D ?S (Point2i 1 0) r c \<longrightarrow> px result r c = px ?D r c"
    using th by blast
  have "overlap ?D ?S (Point2i 1 0) 0 1" by (simp add: overlap_def inside_def)
  then have p1: "px result 0 1 = [U8 9, U8 10, U8 11, U8 12]"
    using r(2)[rule_format, of 0 1] by (simp add: px_def)
  have "inside ?D 0 0 \<and> \<not> overlap ?D ?S (Point2i 1 0) 0 0" by (simp add: overlap_def inside_def)
  then have p0: "px result 0 0 = [U8 1, U8 2, U8 3, U8 4]"
    using r(3)[rule_format, of 0 0] by (simp add: px_def)
  show ?thesis using wfd wfs z r(1) p0 p1 by blast
qed

text \<open>
  Claim C6. Whenever the masked blend returns, every pixel of \<open>dst\<close> that lies outside
  the overlap region, or maps outside the mask, or maps to mask value 0 is unchanged, for
  any amount, and every pixel of the overlap whose mask value is not 0 is
  \<open>mix(dst, src, amount)\<close> with the full amount, whatever the mask value; and for the
  three supported types the blend does return.
\<close>

theorem blend_masked_gating:
  assumes "wf_Mat dst" "wf_Mat src" "wf_Mat msk" "mtype src = mtype dst" "mtype msk = CV_8UC1"
  shows "(mtype dst = CV_8UC4 \<or> mtype dst = CV_32FC3 \<or> mtype dst = CV_32FC4 \<longrightarrow>
            (\<exists>result. blend_masked mix dst src msk origin amount = Inr result))
     \<and> (\<forall>result. blend_masked mix dst src msk origin amount = Inr result \<longrightarrow>
            same_shape result dst
          \<and> (\<forall>r c. inside dst r c \<longrightarrow> px result r c =
                (if overlap dst src origin r c \<and> mask_gate src msk origin r c
                 then mix (px dst r c) (px src (r - pti_y origin) (c - pti_x origin)) amount
                 else px dst r c)))"
proof (cases "mtype dst = CV_8UC4 \<or> mtype dst = CV_32FC3 \<or> mtype dst = CV_32FC4")
  case True
  obtain res where res: "blend_masked mix dst src msk origin amount = Inr res" "same_shape res dst"
    "\<forall>r c. inside dst r c \<longrightarrow> px res r c =
           (if overlap dst src origin r c \<and> mask_gate src msk origin r c
            then mix (px dst r c) (px src (r - pti_y origin) (c - pti_x origin)) amount
            else px dst r c)"
    using blend_masked_ok[OF wf_Mat_dims_ok[OF assms(1)] assms(4,5) True, of mix origin amount]
    by blast
  then show ?thesis by auto
next
  case False
  have eq: "blend_masked mix dst src msk origin amount =
     (if \<exists>r c. overlap dst src origin r c \<and> mask_gate src msk origin r c
      then Inl AssertionFailed else Inr dst)"
    using assms(4,5) False by (rule blend_masked_unsupported)
  show ?thesis
  proof (cases "\<exists>r c. overlap dst src origin r c \<and> mask_gate src msk origin r c")
    case True
    then show ?thesis using eq False by simp
  next
    case no: False
    then have "blend_masked mix dst src msk origin amount = Inr dst" using eq by simp
    then show ?thesis using False no by (auto simp: same_shape_refl)
  qed
qed

text \<open>Two pixels, mask values 0 and 7, amount 1/2.\<close>

theorem blend_masked_gating_witness:
  "wf_Mat \<lparr>rows = 1, cols = 2, mtype = CV_8UC4,
            data = [[U8 1, U8 2, U8 3, U8 4], [U8 5, U8 6, U8 7, U8 8]]\<rparr>
   \<and> wf_Mat \<lparr>rows = 1, cols = 2, mtype = CV_8UC4,
            data = [[U8 9, U8 10, U8 11, U8 12], [U8 13, U8 14, U8 15, U8 16]]\<rparr>
   \<and> wf_Mat \<lparr>rows = 1, cols = 2, mtype = CV_8UC1, data = [[U8 0], [U8 7]]\<rparr>
   \<and> (\<exists>result. blend_masked spec_mix
        \<lparr>rows = 1, cols = 2, mtype = CV_8UC4,
          data = [[U8 1, U8 2, U8 3, U8 4], [U8 5, U8 6, U8 7, U8 8]]\<rparr>
        \<lparr>rows = 1, cols = 2, mtype = CV_8UC4,
          data = [[U8 9, U8 10, U8 11, U8 12], [U8 13, U8 14, U8 15, U8 16]]\<rparr>
        \<lparr>rows = 1, cols = 2, mtype = CV_8UC1, data = [[U8 0], [U8 7]]\<rparr>
        (Point2i 0 0) (1 / 2) = Inr result
      \<and> px result 0 0 = [U8 1, U8 2, U8 3, U8 4]
      \<and> px result 0 1 = spec_mix [U8 5, U8 6, U8 7, U8 8] [U8 13, U8 14, U8 15, U8 16] (1 / 2))"
proof -
  let ?D = "\<lparr>rows = 1, cols = 2, mtype = CV_8UC4,
            data = [[U8 1, U8 2, U8 3, U8 4], [U8 5, U8 6, U8 7, U8 8]]\<rparr>"
  let ?S = "\<lparr>rows = 1, cols = 2, mtype = CV_8UC4,
            data = [[U8 9, U8 10, U8 11, U8 12], [U8 13, U8 14, U8 15, U8 16]]\<rparr>"
  let ?M = "\<lparr>rows = 1, cols = 2, mtype = CV_8UC1, data = [[U8 0], [U8 7]]\<rparr>"
  have wfd: "wf_Mat ?D" by (simp add: wf_Mat_def pixel_ok_def)
  have wfs: "wf_Mat ?S" by (simp add: wf_Mat_def pixel_ok_def)
  have wfm: "wf_Mat ?M" by (simp add: wf_Mat_def pixel_ok_def)
  have ty: "mtype ?S = mtype ?D" "mtype ?M = CV_8UC1" by simp_all
  note th = blend_masked_gating[OF wfd wfs wfm ty, of spec_mix "Point2i 0 0" "1 / 2"]
  obtain result where r: "blend_masked spec_mix ?D ?S ?M (Point2i 0 0) (1 / 2) = Inr result"
    using th by auto
  then have all: "\<forall>r c. inside ?D r c \<longrightarrow> px result r c =
                (if overlap ?D ?S (Point2i 0 0) r c \<and> mask_gate ?S ?M (Point2i 0 0) r c
                 then spec_mix (px ?D r c) (px ?S (r - pti_y (Point2i 0 0)) (c - pti_x (Point2i 0 0))) (1 / 2)
                 else px ?D r c)"
    using th by blast
  have g0: "inside ?D 0 0 \<and> \<not> mask_gate ?S ?M (Point2i 0 0) 0 0"
    by (simp add: inside_def mask_gate_def px_def c_div_def)
  have g1: "inside ?D 0 1 \<and> overlap ?D ?S (Point2i 0 0) 0 1 \<and> mask_gate ?S ?M (Point2i 0 0) 0 1"
    by (simp add: inside_def overlap_def mask_gate_def px_def c_div_def)
  have p0: "px result 0 0 = [U8 1, U8 2, U8 3, U8 4]"
    using all[rule_format, of 0 0] g0 by (simp add: px_def)
  have p1: "px result 0 1 = spec_mix [U8 5, U8 6, U8 7, U8 8] [U8 13, U8 14, U8 15, U8 16] (1 / 2)"
    using all[rule_format, of 0 1] g1 by (simp add: px_def)
  show ?thesis using wfd wfs wfm r p0 p1 by blast
qed

section \<open>Brow pipeline: proofs\<close>

lemma for_loop_E_shift:
  "for_loop_E (lo + k) (hi + k) (\<lambda>i. body (i - k)) s = for_loop_E lo hi body s"
proof -
  have "n = nat (hi - lo) \<Longrightarrow>
      for_loop_E (lo + k) (hi + k) (\<lambda>i. body (i - k)) s = for_loop_E lo hi body s" for n lo s
  proof (induction n arbitrary: lo s)
    case 0
    then have "hi \<le> lo" by simp
    then show ?case by (simp add: for_loop_E_done)
  next
    case (Suc n)
    then have lt: "lo < hi" by linarith
    have ih: "for_loop_E (lo + 1 + k) (hi + k) (\<lambda>i. body (i - k)) s' = for_loop_E (lo + 1) hi body s'"
      for s' using Suc.IH[of "lo + 1" s'] Suc.prems by simp
    have lt': "lo + k < hi + k" using lt by simp
    have "lo + k + 1 = lo + 1 + k" by simp
    then show ?case
      by (simp only: for_loop_E_step[OF lt] for_loop_E_step[OF lt'] add_diff_cancel_right' ih)
  qed
  then show ?thesis by simp
qed

lemma for_loop_E_shift2:
  "for_loop_E 0 h (\<lambda>r. for_loop_E 0 w (body r)) s =
   for_loop_E y (y + h) (\<lambda>r. for_loop_E x (x + w) (\<lambda>c. body (r - y) (c - x))) s"
proof -
  have inner: "for_loop_E x (x + w) (\<lambda>c. body r (c - x)) = for_loop_E 0 w (body r)" for r
  proof
    fix s
    have "for_loop_E (0 + x) (w + x) (\<lambda>c. body r (c - x)) s = for_loop_E 0 w (body r) s"
      by (rule for_loop_E_shift)
    moreover have "0 + x = x" "w + x = x + w" by simp_all
    ultimately show "for_loop_E x (x + w) (\<lambda>c. body r (c - x)) s = for_loop_E 0 w (body r) s"
      by (simp only:)
  qed
  have "for_loop_E (0 + y) (h + y) (\<lambda>r. for_loop_E 0 w (body (r - y))) s =
      for_loop_E 0 h (\<lambda>r. for_loop_E 0 w (body r)) s"
    by (rule for_loop_E_shift[of 0 y h "\<lambda>r. for_loop_E 0 w (body r)" s])
  moreover have "0 + y = y" "h + y = y + h" by simp_all
  ultimately have "for_loop_E y (y + h) (\<lambda>r. for_loop_E 0 w (body (r - y))) s =
      for_loop_E 0 h (\<lambda>r. for_loop_E 0 w (body r)) s"
    by (simp only:)
  then show ?thesis by (simp only: inner)
qed

lemma brow_mix_4:
  assumes "length p = 4"
  shows "brow_mix lerp p s a =
     [U8 (lerp (u8_of (p ! 0)) (u8_of (s ! 0)) a), U8 (lerp (u8_of (p ! 1)) (u8_of (s ! 1)) a),
      U8 (lerp (u8_of (p ! 2)) (u8_of (s ! 2)) a), p ! 3]"
proof -
  obtain a0 a1 a2 a3 where p: "p = [a0, a1, a2, a3]"
    using assms by (auto simp: length_Suc_conv numeral_eq_Suc)
  show ?thesis by (simp add: p brow_mix_def Let_def)
qed


lemma brow_copy_pixel_ok:
  assumes s: "dims_ok s" "mtype s = CV_8UC4" and roi: "mtype roi = CV_8UC3"
    and msk: "mtype roi_mask_with_margin = CV_8UC1"
    and ins: "inside s (r + rect_y rect) (c + rect_x rect)" "inside roi r c"
      "inside roi_mask_with_margin (r + 8) (c + 8)"
  shows "\<exists>s'. brow_copy_pixel lerp rect roi_mask_with_margin roi r c s = Inr s' \<and> same_shape s' s
    \<and> (\<forall>r' c'. inside s r' c' \<longrightarrow> px s' r' c' =
          (if (r', c') = (r + rect_y rect, c + rect_x rect)
           then (if byte_of_pixel (px roi_mask_with_margin (r + 8) (c + 8)) = 0
                 then px s (r + rect_y rect) (c + rect_x rect)
                 else brow_mix lerp (px s (r + rect_y rect) (c + rect_x rect)) (px roi r c)
                        (byte_of_pixel (px roi_mask_with_margin (r + 8) (c + 8))))
           else px s r' c'))"
proof (cases "byte_of_pixel (px roi_mask_with_margin (r + 8) (c + 8)) = 0")
  case True
  then have "brow_copy_pixel lerp rect roi_mask_with_margin roi r c s = Inr s"
    using msk ins(3) by (simp add: brow_copy_pixel_def Mat_at_def Let_def)
  then show ?thesis using True by (auto simp: same_shape_refl)
next
  case False
  let ?v = "brow_mix lerp (px s (r + rect_y rect) (c + rect_x rect)) (px roi r c)
              (byte_of_pixel (px roi_mask_with_margin (r + 8) (c + 8)))"
  have eq: "brow_copy_pixel lerp rect roi_mask_with_margin roi r c s =
      Mat_put CV_8UC4 s (r + rect_y rect) (c + rect_x rect) ?v"
    using False msk roi s(2) ins by (simp add: brow_copy_pixel_def Mat_at_def Let_def)
  obtain s' where s': "Mat_put CV_8UC4 s (r + rect_y rect) (c + rect_x rect) ?v = Inr s'"
    "same_shape s' s" "px s' (r + rect_y rect) (c + rect_x rect) = ?v"
    "\<forall>r' c'. inside s r' c' \<longrightarrow> (r', c') \<noteq> (r + rect_y rect, c + rect_x rect)
        \<longrightarrow> px s' r' c' = px s r' c'"
    using Mat_put_ok[OF s(1,2) ins(1), of ?v] by blast
  have "\<forall>r' c'. inside s r' c' \<longrightarrow> px s' r' c' =
          (if (r', c') = (r + rect_y rect, c + rect_x rect) then ?v else px s r' c')"
    using s'(3,4) by auto
  then show ?thesis using eq s'(1,2) False by auto
qed

text \<open>
  Claim C9. In the copy-back step of \<open>applyBrow\<close>, with the brow rectangle inside the
  destination and the patch and the mask with margin large enough, the loop runs to its end
  and, for every pixel \<open>(r, c)\<close> of the brow rectangle: where the mask with margin is 0 at
  \<open>(r + 8, c + 8)\<close> the destination pixel is unchanged, and elsewhere its three colour
  channels become \<open>lerp\<close> of the old channel and the channel of the patch at \<open>(r, c)\<close>,
  weighted by the mask value, while its fourth channel (alpha) is unchanged. Pixels of the
  destination outside the rectangle are unchanged.
\<close>

theorem applyBrow_copy_back_frame:
  assumes "wf_Mat dst" "mtype dst = CV_8UC4" "mtype roi = CV_8UC3"
    "mtype roi_mask_with_margin = CV_8UC1"
    "0 \<le> rect_x rect" "0 \<le> rect_y rect" "0 \<le> rect_width rect" "0 \<le> rect_height rect"
    "rect_x rect + rect_width rect \<le> cols dst" "rect_y rect + rect_height rect \<le> rows dst"
    "rect_height rect \<le> rows roi" "rect_width rect \<le> cols roi"
    "rect_height rect + 8 \<le> rows roi_mask_with_margin"
    "rect_width rect + 8 \<le> cols roi_mask_with_margin"
  shows "\<exists>dst'. applyBrow_copy_back lerp rect roi_mask_with_margin roi dst = Inr dst'
     \<and> same_shape dst' dst
     \<and> (\<forall>r c. 0 \<le> r \<and> r < rect_height rect \<and> 0 \<le> c \<and> c < rect_width rect \<longrightarrow>
           px dst' (r + rect_y rect) (c + rect_x rect) =
             brow_result lerp (px dst (r + rect_y rect) (c + rect_x rect)) (px roi r c)
               (byte_of_pixel (px roi_mask_with_margin (r + 8) (c + 8))))
     \<and> (\<forall>r c. inside dst r c
             \<and> \<not> (rect_y rect \<le> r \<and> r < rect_y rect + rect_height rect
                  \<and> rect_x rect \<le> c \<and> c < rect_x rect + rect_width rect) \<longrightarrow>
           px dst' r c = px dst r c)"
proof -
  let ?y = "rect_y rect" and ?x = "rect_x rect" and ?h = "rect_height rect" and ?w = "rect_width rect"
  let ?M = roi_mask_with_margin
  define g where "g r c =
     (if byte_of_pixel (px ?M (r - ?y + 8) (c - ?x + 8)) = 0 then px dst r c
      else brow_mix lerp (px dst r c) (px roi (r - ?y) (c - ?x))
             (byte_of_pixel (px ?M (r - ?y + 8) (c - ?x + 8))))" for r c
  have d: "dims_ok dst" using assms(1) by (rule wf_Mat_dims_ok)
  have eq: "applyBrow_copy_back lerp rect ?M roi dst =
      for_loop_E ?y (?y + ?h) (\<lambda>r. for_loop_E ?x (?x + ?w)
         (\<lambda>c. brow_copy_pixel lerp rect ?M roi (r - ?y) (c - ?x))) dst"
    unfolding applyBrow_copy_back_def by (rule for_loop_E_shift2)
  have "\<exists>res. for_loop_E ?y (?y + ?h) (\<lambda>r. for_loop_E ?x (?x + ?w)
         (\<lambda>c. brow_copy_pixel lerp rect ?M roi (r - ?y) (c - ?x))) dst = Inr res
     \<and> same_shape res dst
     \<and> (\<forall>r c. inside dst r c \<longrightarrow> px res r c =
          (if ?y \<le> r \<and> r < ?y + ?h \<and> ?x \<le> c \<and> c < ?x + ?w then g r c else px dst r c))"
  proof (rule pixel_loops)
    show "?y \<le> ?y + ?h" "?x \<le> ?x + ?w" using assms(7,8) by simp_all
  next
    fix r c s
    assume rc: "?y \<le> r" "r < ?y + ?h" "?x \<le> c" "c < ?x + ?w" and sh: "same_shape s dst"
      and inv: "\<forall>r' c'. inside dst r' c' \<longrightarrow> px s r' c' =
          (if (?y \<le> r' \<and> r' < r \<and> ?x \<le> c' \<and> c' < ?x + ?w) \<or> (r' = r \<and> ?x \<le> c' \<and> c' < c)
           then g r' c' else px dst r' c')"
    have insd: "inside dst r c" using rc assms(5,6,9,10) by (simp add: inside_def)
    have here: "px s r c = px dst r c" using inv insd by auto
    have ds: "dims_ok s" using sh d by (rule same_shape_dims_ok)
    have ts: "mtype s = CV_8UC4" using sh assms(2) by (simp add: same_shape_def)
    have i1: "inside s (r - ?y + ?y) (c - ?x + ?x)" using insd same_shape_inside[OF sh] by simp
    have i2: "inside roi (r - ?y) (c - ?x)" using rc assms(11,12) by (simp add: inside_def)
    have i3: "inside ?M (r - ?y + 8) (c - ?x + 8)" using rc assms(13,14) by (simp add: inside_def)
    obtain s' where s': "brow_copy_pixel lerp rect ?M roi (r - ?y) (c - ?x) s = Inr s'"
      "same_shape s' s"
      "\<forall>r' c'. inside s r' c' \<longrightarrow> px s' r' c' =
          (if (r', c') = (r - ?y + ?y, c - ?x + ?x)
           then (if byte_of_pixel (px ?M (r - ?y + 8) (c - ?x + 8)) = 0
                 then px s (r - ?y + ?y) (c - ?x + ?x)
                 else brow_mix lerp (px s (r - ?y + ?y) (c - ?x + ?x)) (px roi (r - ?y) (c - ?x))
                        (byte_of_pixel (px ?M (r - ?y + 8) (c - ?x + 8))))
           else px s r' c')"
      using brow_copy_pixel_ok[OF ds ts assms(3,4) i1 i2 i3, of lerp] by blast
    have "\<forall>r' c'. inside dst r' c' \<longrightarrow> px s' r' c' = (if (r', c') = (r, c) then g r c else px s r' c')"
      using s'(3) same_shape_inside[OF sh] here by (auto simp: g_def)
    moreover have "same_shape s' dst" using s'(2) sh by (rule same_shape_trans)
    ultimately show "\<exists>s'. brow_copy_pixel lerp rect ?M roi (r - ?y) (c - ?x) s = Inr s'
        \<and> same_shape s' dst
        \<and> (\<forall>r' c'. inside dst r' c' \<longrightarrow> px s' r' c' = (if (r', c') = (r, c) then g r c else px s r' c'))"
      using s'(1) by blast
  qed
  then obtain res where res: "applyBrow_copy_back lerp rect ?M roi dst = Inr res"
    "same_shape res dst"
    "\<forall>r c. inside dst r c \<longrightarrow> px res r c =
          (if ?y \<le> r \<and> r < ?y + ?h \<and> ?x \<le> c \<and> c < ?x + ?w then g r c else px dst r c)"
    using eq by auto
  have a: "\<forall>r c. 0 \<le> r \<and> r < ?h \<and> 0 \<le> c \<and> c < ?w \<longrightarrow>
           px res (r + ?y) (c + ?x) =
             brow_result lerp (px dst (r + ?y) (c + ?x)) (px roi r c)
               (byte_of_pixel (px ?M (r + 8) (c + 8)))"
  proof (intro allI impI)
    fix r c assume rc: "0 \<le> r \<and> r < ?h \<and> 0 \<le> c \<and> c < ?w"
    then have ins: "inside dst (r + ?y) (c + ?x)" using assms(5,6,9,10) by (simp add: inside_def)
    then have "length (px dst (r + ?y) (c + ?x)) = 4"
      using px_pixel_ok[OF assms(1) ins] assms(2) by (simp add: pixel_ok_def)
    then have bm: "brow_mix lerp (px dst (r + ?y) (c + ?x)) (px roi r c) a =
        brow_result lerp (px dst (r + ?y) (c + ?x)) (px roi r c) a" if "a \<noteq> 0" for a
      using that by (simp add: brow_mix_4 brow_result_def)
    have "px res (r + ?y) (c + ?x) = g (r + ?y) (c + ?x)" using res(3) ins rc by simp
    then show "px res (r + ?y) (c + ?x) =
             brow_result lerp (px dst (r + ?y) (c + ?x)) (px roi r c)
               (byte_of_pixel (px ?M (r + 8) (c + 8)))"
      using bm by (auto simp: g_def brow_result_def)
  qed
  have b: "\<forall>r c. inside dst r c
             \<and> \<not> (?y \<le> r \<and> r < ?y + ?h \<and> ?x \<le> c \<and> c < ?x + ?w) \<longrightarrow> px res r c = px dst r c"
    using res(3) by auto
  show ?thesis using res(1,2) a b by blast
qed


text \<open>A brow rectangle of two pixels, the mask 0 at the first and 255 at the second.\<close>

theorem applyBrow_copy_back_frame_witness:
  "wf_Mat \<lparr>rows = 1, cols = 2, mtype = CV_8UC4,
            data = [[U8 10, U8 20, U8 30, U8 40], [U8 50, U8 60, U8 70, U8 80]]\<rparr>
   \<and> (\<exists>dst'. applyBrow_copy_back lerp_u8 (Rect 0 0 2 1)
          \<lparr>rows = 9, cols = 10, mtype = CV_8UC1, data = (replicate 90 [U8 0])[89 := [U8 255]]\<rparr>
          \<lparr>rows = 1, cols = 2, mtype = CV_8UC3, data = [[U8 1, U8 2, U8 3], [U8 4, U8 5, U8 6]]\<rparr>
          \<lparr>rows = 1, cols = 2, mtype = CV_8UC4,
            data = [[U8 10, U8 20, U8 30, U8 40], [U8 50, U8 60, U8 70, U8 80]]\<rparr> = Inr dst'
        \<and> px dst' 0 0 = [U8 10, U8 20, U8 30, U8 40]
        \<and> px dst' 0 1 = [U8 4, U8 5, U8 6, U8 80])"
proof -
  let ?D = "\<lparr>rows = 1, cols = 2, mtype = CV_8UC4,
            data = [[U8 10, U8 20, U8 30, U8 40], [U8 50, U8 60, U8 70, U8 80]]\<rparr>"
  let ?M = "\<lparr>rows = 9, cols = 10, mtype = CV_8UC1, data = (replicate 90 [U8 0])[89 := [U8 255]]\<rparr>"
  let ?R = "\<lparr>rows = 1, cols = 2, mtype = CV_8UC3, data = [[U8 1, U8 2, U8 3], [U8 4, U8 5, U8 6]]\<rparr>"
  have wf: "wf_Mat ?D" by (simp add: wf_Mat_def pixel_ok_def)
  obtain dst' where d: "applyBrow_copy_back lerp_u8 (Rect 0 0 2 1) ?M ?R ?D = Inr dst'"
    "\<forall>r c. 0 \<le> r \<and> r < rect_height (Rect 0 0 2 1) \<and> 0 \<le> c \<and> c < rect_width (Rect 0 0 2 1) \<longrightarrow>
           px dst' (r + rect_y (Rect 0 0 2 1)) (c + rect_x (Rect 0 0 2 1)) =
             brow_result lerp_u8 (px ?D (r + rect_y (Rect 0 0 2 1)) (c + rect_x (Rect 0 0 2 1)))
               (px ?R r c) (byte_of_pixel (px ?M (r + 8) (c + 8)))"
    using applyBrow_copy_back_frame[of ?D ?R ?M "Rect 0 0 2 1" lerp_u8, OF wf] by auto
  have p0: "px dst' 0 0 = [U8 10, U8 20, U8 30, U8 40]"
    using d(2)[rule_format, of 0 0] by (simp add: px_def brow_result_def)
  have p1: "px dst' 0 1 = [U8 4, U8 5, U8 6, U8 80]"
    using d(2)[rule_format, of 0 1] by (simp add: px_def brow_result_def lerp_u8_def)
  show ?thesis using wf d(1) p0 p1 by blast
qed

section \<open>Eye shadow: proofs\<close>

lemma uint_and_FF: "0 \<le> uint (w AND 0xFF :: uint32_t) \<and> uint (w AND 0xFF :: uint32_t) \<le> 255"
proof -
  have "uint (w AND 0xFF) = uint w AND 255" by (simp add: uint_and)
  moreover have "uint w AND 255 \<le> 255" by (rule AND_upper2) simp
  ultimately show ?thesis by simp
qed

lemma all_less_3: "(\<forall>k < 3. P k) = (P 0 \<and> P (Suc 0) \<and> P 2)"
proof -
  have "k < 3 \<longleftrightarrow> k = 0 \<or> k = Suc 0 \<or> k = 2" for k :: nat by linarith
  then show ?thesis by auto
qed

lemma unpack_range:
  "length (unpack c) = 3 \<and> (\<forall>k < 3. 0 \<le> unpack c ! k \<and> unpack c ! k \<le> 255)"
  using uint_and_FF[of c] uint_and_FF[of "drop_bit 8 c"] uint_and_FF[of "drop_bit 16 c"]
  by (simp add: unpack_def all_less_3)

lemma uint_byte_range: "0 \<le> uint (b :: uint8_t) \<and> uint b \<le> 255"
  using uint_lt2p[of b] by simp

lemma cvRound_bounds:
  assumes "real_of_int lo \<le> v" "v \<le> real_of_int hi"
  shows "lo \<le> cvRound v \<and> cvRound v \<le> hi"
proof -
  have f1: "lo \<le> \<lfloor>v\<rfloor>" using assms(1) by (simp add: le_floor_iff)
  have f2: "\<lfloor>v\<rfloor> \<le> hi" using floor_mono[OF assms(2)] by simp
  have up: "\<lfloor>v\<rfloor> + 1 \<le> hi" if "0 < v - real_of_int \<lfloor>v\<rfloor>"
  proof -
    have "real_of_int \<lfloor>v\<rfloor> < real_of_int hi" using that assms(2) by linarith
    then show ?thesis by simp
  qed
  show ?thesis
    unfolding cvRound_def Let_def using f1 f2 up by auto
qed

lemma cvRound_quotient_range:
  assumes "0 \<le> s" "s \<le> 255 * a" "0 < a"
  shows "0 \<le> cvRound (real_of_int s * (1 / real_of_int a))
       \<and> cvRound (real_of_int s * (1 / real_of_int a)) \<le> 255"
proof (rule cvRound_bounds)
  show "real_of_int 0 \<le> real_of_int s * (1 / real_of_int a)" using assms by simp
  have "real_of_int s \<le> 255 * real_of_int a" using assms(2) by (metis of_int_le_iff of_int_mult of_int_numeral)
  then show "real_of_int s * (1 / real_of_int a) \<le> real_of_int 255"
    using assms(3) by (simp add: divide_le_eq)
qed

lemma cvRound_exact_quotient:
  assumes "v \<noteq> 0"
  shows "cvRound (real_of_int (x * v) * (1 / real_of_int v)) = x"
proof -
  have "real_of_int (x * v) * (1 / real_of_int v) = real_of_int x" using assms by simp
  then show ?thesis by (simp only: cvRound_of_int)
qed

lemma for_loop_E_not_err:
  assumes "\<And>i s. body i s \<noteq> Inl e"
  shows "for_loop_E lo hi body s \<noteq> Inl e"
proof -
  have "n = nat (hi - i) \<Longrightarrow> for_loop_E i hi body s \<noteq> Inl e" for n i s
  proof (induction n arbitrary: i s)
    case 0
    then have "hi \<le> i" by simp
    then show ?case by (simp add: for_loop_E_done)
  next
    case (Suc n)
    then have lt: "i < hi" by linarith
    show ?case
    proof (cases "body i s")
      case (Inl e')
      then show ?thesis using assms[of i s] lt by (simp add: for_loop_E_step)
    next
      case (Inr s')
      then show ?thesis using Suc.IH[of "i + 1" s'] Suc.prems lt by (simp add: for_loop_E_step)
    qed
  qed
  then show ?thesis by simp
qed

lemma for_loop_E_Inr_inv:
  assumes "for_loop_E lo hi body s = Inr s'" "I lo s" "lo \<le> hi"
    and step: "\<And>i s s'. lo \<le> i \<Longrightarrow> i < hi \<Longrightarrow> I i s \<Longrightarrow> body i s = Inr s' \<Longrightarrow> I (i + 1) s'"
  shows "I hi s'"
proof -
  have "n = nat (hi - i) \<Longrightarrow> lo \<le> i \<Longrightarrow> i \<le> hi \<Longrightarrow> I i s \<Longrightarrow> for_loop_E i hi body s = Inr s'
      \<Longrightarrow> I hi s'" for n i s
  proof (induction n arbitrary: i s)
    case 0
    then have "i = hi" by simp
    then show ?case using 0 by (simp add: for_loop_E_done)
  next
    case (Suc n)
    then have lt: "i < hi" by linarith
    show ?case
    proof (cases "body i s")
      case (Inl e')
      then show ?thesis using Suc.prems(5) lt by (simp add: for_loop_E_step)
    next
      case (Inr s1)
      have "I (i + 1) s1" using step[OF Suc.prems(2) lt Suc.prems(4) Inr] .
      moreover have "for_loop_E (i + 1) hi body s1 = Inr s'"
        using Suc.prems(5) lt Inr by (simp add: for_loop_E_step)
      ultimately show ?thesis using Suc.IH[of "i + 1" s1] Suc.prems lt by simp
    qed
  qed
  from this[of _ lo s, OF refl order_refl assms(3) assms(2) assms(1)] show ?thesis .
qed


lemma Mat_at_not_assert: "Mat_at T m r c \<noteq> Inl AssertionFailed"
  by (simp add: Mat_at_def)

lemma Mat_put_not_assert: "Mat_put T m r c v \<noteq> Inl AssertionFailed"
  by (simp add: Mat_put_def)

lemma shadow_layer_not_assert: "shadow_layer masks colors r c i st \<noteq> Inl AssertionFailed"
  using Mat_at_not_assert[of CV_8UC1 "masks ! nat i" r c]
  by (auto simp: shadow_layer_def Let_def split: prod.splits sum.splits)

lemma shadow_layer_inv:
  assumes "0 \<le> i" "i < 3" "layer_inv st"
    "shadow_layer masks [unpack c0, unpack c1, unpack c2] r c i st = Inr st'"
  shows "layer_inv st'"
proof -
  obtain rgb a a_max where st: "st = (rgb, a, a_max)" by (cases st) auto
  obtain p where p: "Mat_at CV_8UC1 (masks ! nat i) r c = Inr p"
    using assms(4) by (auto simp: shadow_layer_def st split: sum.splits)
  define alpha where "alpha = uint (byte_of_pixel p)"
  define col where "col = [unpack c0, unpack c1, unpack c2] ! nat i"
  have al: "0 \<le> alpha" "alpha \<le> 255" using uint_byte_range[of "byte_of_pixel p"] by (simp_all add: alpha_def)
  have "nat i = 0 \<or> nat i = 1 \<or> nat i = 2" using assms(1,2) by linarith
  then have "col = unpack c0 \<or> col = unpack c1 \<or> col = unpack c2" by (auto simp: col_def)
  then have col: "length col = 3" "\<forall>k < 3. 0 \<le> col ! k \<and> col ! k \<le> 255"
    using unpack_range by auto
  have st': "st' = (Vec3i_add rgb (Vec3i_mul col alpha), a + alpha,
       if a_max < alpha then alpha else a_max)"
    using assms(4) p by (auto simp: shadow_layer_def st Let_def alpha_def col_def)
  have inv: "length rgb = 3" "\<forall>k < 3. 0 \<le> rgb ! k \<and> rgb ! k \<le> 255 * a" "0 \<le> a"
    using assms(3) by (simp_all add: layer_inv_def st)
  have len: "length (Vec3i_add rgb (Vec3i_mul col alpha)) = 3"
    using inv(1) col(1) by (simp add: Vec3i_add_def Vec3i_mul_def)
  have ent: "0 \<le> Vec3i_add rgb (Vec3i_mul col alpha) ! k
      \<and> Vec3i_add rgb (Vec3i_mul col alpha) ! k \<le> 255 * (a + alpha)" if k: "k < 3" for k
  proof -
    have e: "Vec3i_add rgb (Vec3i_mul col alpha) ! k = rgb ! k + col ! k * alpha"
      using k inv(1) col(1) by (simp add: Vec3i_add_def Vec3i_mul_def)
    have "0 \<le> col ! k * alpha" using col(2) k al by simp
    moreover have "col ! k * alpha \<le> 255 * alpha"
      using col(2) k al by (intro mult_right_mono) auto
    moreover have "0 \<le> rgb ! k \<and> rgb ! k \<le> 255 * a" using inv(2) k by blast
    ultimately show ?thesis unfolding e by (simp add: distrib_left)
  qed
  show ?thesis using len ent inv(3) al by (simp add: st' layer_inv_def)
qed

lemma shadow_merge_range:
  assumes "shadow_merge masks [unpack c0, unpack c1, unpack c2] r c = Inr (rgb, a)"
  shows "length rgb = 3 \<and> (\<forall>k < 3. 0 \<le> rgb ! k \<and> rgb ! k \<le> 255)"
proof -
  obtain rgb0 a0 a_max where l: "for_loop_E 0 3
      (shadow_layer masks [unpack c0, unpack c1, unpack c2] r c) ([0, 0, 0], 0, 0) = Inr (rgb0, a0, a_max)"
    using assms by (auto simp: shadow_merge_def split: sum.splits)
  have "layer_inv (rgb0, a0, a_max)"
  proof (rule for_loop_E_Inr_inv[OF l, where I = "\<lambda>i. layer_inv"])
    show "layer_inv ([0, 0, 0], 0, 0)" by (simp add: layer_inv_def all_less_3)
    show "(0::int) \<le> 3" by simp
  next
    fix i s s'
    assume "0 \<le> i" "i < 3" "layer_inv s"
      "shadow_layer masks [unpack c0, unpack c1, unpack c2] r c i s = Inr s'"
    then show "layer_inv s'" by (rule shadow_layer_inv)
  qed
  then have inv: "length rgb0 = 3" "\<forall>k < 3. 0 \<le> rgb0 ! k \<and> rgb0 ! k \<le> 255 * a0" "0 \<le> a0"
    by (simp_all add: layer_inv_def)
  have rgb: "rgb = (if a0 \<noteq> 0 then Vec3i_div rgb0 a0 else rgb0)"
    using assms l by (simp add: shadow_merge_def Let_def)
  show ?thesis
  proof (cases "a0 = 0")
    case True
    then show ?thesis using rgb inv by auto
  next
    case False
    then have pos: "0 < a0" using inv(3) by simp
    have "0 \<le> Vec3i_div rgb0 a0 ! k \<and> Vec3i_div rgb0 a0 ! k \<le> 255" if "k < 3" for k
      using that inv(1,2) cvRound_quotient_range[of "rgb0 ! k" a0] pos
      by (simp add: Vec3i_div_def)
    then show ?thesis using rgb False inv(1) by (simp add: Vec3i_div_def)
  qed
qed

lemma assert_loop_ok:
  assumes "\<forall>k < 3. 0 \<le> rgb ! k \<and> rgb ! k \<le> (255::int)"
  shows "for_loop_E 0 3 (\<lambda>i u. if 0 \<le> rgb ! nat i \<and> rgb ! nat i \<le> 255 then Inr u
                          else Inl AssertionFailed) () = Inr ()"
proof -
  have "\<forall>i. 0 \<le> i \<and> i < 3 \<longrightarrow> 0 \<le> rgb ! nat i \<and> rgb ! nat i \<le> 255"
  proof (intro allI impI)
    fix i :: int assume "0 \<le> i \<and> i < 3"
    then have "nat i < 3" by linarith
    then show "0 \<le> rgb ! nat i \<and> rgb ! nat i \<le> 255" using assms by blast
  qed
  then show ?thesis by (simp add: for_loop_E_const)
qed

lemma shadow_merge_not_assert: "shadow_merge masks colors r c \<noteq> Inl AssertionFailed"
  using for_loop_E_not_err[of "shadow_layer masks colors r c" AssertionFailed 0 3 "([0, 0, 0], 0, 0)"]
    shadow_layer_not_assert[of masks colors r c]
  by (auto simp: shadow_merge_def Let_def split: sum.splits prod.splits)

lemma shadow_pixel_not_assert:
  "shadow_pixel b masks [unpack c0, unpack c1, unpack c2] r c bitmap \<noteq> Inl AssertionFailed"
proof (cases "shadow_merge masks [unpack c0, unpack c1, unpack c2] r c")
  case (Inl e)
  then have "e \<noteq> AssertionFailed" using shadow_merge_not_assert by metis
  then show ?thesis using Inl by (simp add: shadow_pixel_def)
next
  case (Inr ra)
  obtain rgb a where ra: "ra = (rgb, a)" by (cases ra) auto
  have "\<forall>k < 3. 0 \<le> rgb ! k \<and> rgb ! k \<le> 255"
    using shadow_merge_range[OF Inr[unfolded ra]] by blast
  then have ok: "for_loop_E 0 3 (\<lambda>i u. if 0 \<le> rgb ! nat i \<and> rgb ! nat i \<le> 255 then Inr u
                          else Inl AssertionFailed) () = Inr ()"
    by (rule assert_loop_ok)
  show ?thesis
    using Inr ra ok Mat_put_not_assert by (simp add: shadow_pixel_def)
qed

lemma createEyeShadow_not_assert:
  "createEyeShadow b masks color \<noteq> Inl AssertionFailed"
  unfolding createEyeShadow_def Let_def
  by (intro for_loop_E_not_err shadow_pixel_not_assert)

lemma for_loop_E_0_3:
  "for_loop_E 0 3 body s =
     (case body 0 s of Inl e \<Rightarrow> Inl e
      | Inr s1 \<Rightarrow> (case body 1 s1 of Inl e \<Rightarrow> Inl e
         | Inr s2 \<Rightarrow> (case body 2 s2 of Inl e \<Rightarrow> Inl e | Inr s3 \<Rightarrow> Inr s3)))"
proof -
  have c: "for_loop_E 3 3 body s3 = Inr s3" for s3 by (simp add: for_loop_E_done)
  have b: "for_loop_E 2 3 body s2 = (case body 2 s2 of Inl e \<Rightarrow> Inl e | Inr s3 \<Rightarrow> Inr s3)" for s2
    using for_loop_E_step[of 2 3 body s2] by (simp add: c cong: sum.case_cong)
  have a: "for_loop_E 1 3 body s1 = (case body 1 s1 of Inl e \<Rightarrow> Inl e
         | Inr s2 \<Rightarrow> (case body 2 s2 of Inl e \<Rightarrow> Inl e | Inr s3 \<Rightarrow> Inr s3))" for s1
    using for_loop_E_step[of 1 3 body s1] by (simp add: b cong: sum.case_cong)
  show ?thesis using for_loop_E_step[of 0 3 body s] by (simp add: a cong: sum.case_cong)
qed

lemma unpack_channel: "k < 3 \<Longrightarrow> unpack C ! k = color_channel C k"
proof -
  assume "k < 3"
  then have "k = 0 \<or> k = 1 \<or> k = 2" by linarith
  then show ?thesis by (auto simp: unpack_def color_channel_def)
qed

lemma if_max_uint:
  fixes a b :: uint8_t
  shows "(if uint a < uint b then uint b else uint a) = uint (max a b)"
  by (auto simp: max_def word_le_def)

lemma shadow_merge_eval:
  assumes "\<forall>i < 3. mtype (masks ! i) = CV_8UC1 \<and> inside (masks ! i) r c"
  shows "shadow_merge masks [unpack (color ! 0), unpack (color ! 1), unpack (color ! 2)] r c =
     (let alpha = [byte_of_pixel (px (masks ! 0) r c), byte_of_pixel (px (masks ! 1) r c),
                   byte_of_pixel (px (masks ! 2) r c)]
      in Inr ([merged_channel color alpha 0, merged_channel color alpha 1,
               merged_channel color alpha 2],
              uint (max (alpha ! 0) (max (alpha ! 1) (alpha ! 2)))))"
proof -
  define a0 where "a0 = byte_of_pixel (px (masks ! 0) r c)"
  define a1 where "a1 = byte_of_pixel (px (masks ! Suc 0) r c)"
  define a2 where "a2 = byte_of_pixel (px (masks ! 2) r c)"
  have at: "Mat_at (CV_8U, Suc 0) (masks ! 0) r c = Inr (px (masks ! 0) r c)"
    "Mat_at (CV_8U, Suc 0) (masks ! Suc 0) r c = Inr (px (masks ! 1) r c)"
    "Mat_at (CV_8U, Suc 0) (masks ! 2) r c = Inr (px (masks ! 2) r c)"
    using assms by (simp_all add: all_less_3 Mat_at_def)
  have u: "unpack C = [color_channel C 0, color_channel C 1, color_channel C 2]" for C
    by (simp add: unpack_def color_channel_def)
  have nn: "0 \<le> uint a0" "0 \<le> uint a1" "0 \<le> uint a2" by simp_all
  let ?colors = "[unpack (color ! 0), unpack (color ! 1), unpack (color ! 2)]"
  let ?s1 = "([color_channel (color ! 0) 0 * uint a0, color_channel (color ! 0) 1 * uint a0,
               color_channel (color ! 0) 2 * uint a0], uint a0, uint a0)"
  let ?s2 = "([color_channel (color ! 0) 0 * uint a0 + color_channel (color ! 1) 0 * uint a1,
               color_channel (color ! 0) 1 * uint a0 + color_channel (color ! 1) 1 * uint a1,
               color_channel (color ! 0) 2 * uint a0 + color_channel (color ! 1) 2 * uint a1],
              uint a0 + uint a1, uint (max a0 a1))"
  let ?s3 = "([color_channel (color ! 0) 0 * uint a0 + color_channel (color ! 1) 0 * uint a1
            + color_channel (color ! 2) 0 * uint a2,
          color_channel (color ! 0) 1 * uint a0 + color_channel (color ! 1) 1 * uint a1
            + color_channel (color ! 2) 1 * uint a2,
          color_channel (color ! 0) 2 * uint a0 + color_channel (color ! 1) 2 * uint a1
            + color_channel (color ! 2) 2 * uint a2],
         uint a0 + uint a1 + uint a2,
         uint (max a0 (max a1 a2)))"
  have z0: "uint a0 = 0" if "\<not> 0 < uint a0"
    using that uint_ge_0[of a0] by linarith
  have b0: "shadow_layer masks ?colors r c 0 ([0, 0, 0], 0, 0) = Inr ?s1"
    using z0 by (auto simp add: shadow_layer_def at u Vec3i_add_def Vec3i_mul_def Let_def a0_def[symmetric])
  have b1: "shadow_layer masks ?colors r c 1 ?s1 = Inr ?s2"
    by (simp add: shadow_layer_def at u Vec3i_add_def Vec3i_mul_def Let_def if_max_uint
        a1_def[symmetric])
  have m2: "(if uint (max a0 a1) < uint a2 then uint a2 else uint (max a0 a1))
      = uint (max a0 (max a1 a2))"
    by (simp only: if_max_uint max.assoc)
  have b2: "shadow_layer masks ?colors r c 2 ?s2 = Inr ?s3"
    by (simp add: shadow_layer_def at u Vec3i_add_def Vec3i_mul_def Let_def m2
        a2_def[symmetric])
  have loop: "for_loop_E 0 3 (shadow_layer masks ?colors r c) ([0, 0, 0], 0, 0) = Inr ?s3"
    unfolding for_loop_E_0_3 by (simp only: b0 b1 b2 sum.case)
  have zero: "uint a0 = 0 \<and> uint a1 = 0 \<and> uint a2 = 0" if "uint a0 + uint a1 + uint a2 = 0"
    using that uint_ge_0[of a0] uint_ge_0[of a1] uint_ge_0[of a2] by linarith
  have fin: "shadow_merge masks ?colors r c =
      Inr ([merged_channel color [a0, a1, a2] 0, merged_channel color [a0, a1, a2] 1,
            merged_channel color [a0, a1, a2] 2], uint (max a0 (max a1 a2)))"
  proof (cases "uint a0 + uint a1 + uint a2 = 0")
    case True
    then show ?thesis
      unfolding shadow_merge_def loop using zero[OF True]
      by (simp add: Let_def merged_channel_def)
  next
    case False
    then show ?thesis
      unfolding shadow_merge_def loop
      by (simp add: Let_def merged_channel_def Vec3i_div_def)
  qed
  show ?thesis
    unfolding fin by (simp add: Let_def a0_def a1_def a2_def)
qed






lemma masks_ok_iff:
  "masks_ok masks =
     (wf_Mat (masks ! 0) \<and> mtype (masks ! 0) = CV_8UC1
      \<and> wf_Mat (masks ! Suc 0) \<and> mtype (masks ! Suc 0) = CV_8UC1
      \<and> rows (masks ! Suc 0) = rows (masks ! 0) \<and> cols (masks ! Suc 0) = cols (masks ! 0)
      \<and> wf_Mat (masks ! 2) \<and> mtype (masks ! 2) = CV_8UC1
      \<and> rows (masks ! 2) = rows (masks ! 0) \<and> cols (masks ! 2) = cols (masks ! 0))"
  unfolding masks_ok_def all_less_3 by auto

lemma shadow_pixel_ok:
  assumes m: "masks_ok masks" and s: "dims_ok s" "mtype s = CV_8UC4"
    "rows s = rows (masks ! 0)" "cols s = cols (masks ! 0)" and ins: "inside s r c"
  shows "\<exists>s'. shadow_pixel b masks [unpack (color ! 0), unpack (color ! 1), unpack (color ! 2)] r c s
        = Inr s' \<and> same_shape s' s
     \<and> (\<forall>r' c'. inside s r' c' \<longrightarrow> px s' r' c' =
          (if (r', c') = (r, c) then eye_shadow_pixel b color (layer_bytes masks r c)
           else px s r' c'))"
proof -
  let ?colors = "[unpack (color ! 0), unpack (color ! 1), unpack (color ! 2)]"
  let ?al = "layer_bytes masks r c"
  let ?rgb = "[merged_channel color ?al 0, merged_channel color ?al 1, merged_channel color ?al 2]"
  let ?a = "uint (max (?al ! 0) (max (?al ! 1) (?al ! 2)))"
  have "\<forall>i < 3. mtype (masks ! i) = CV_8UC1 \<and> inside (masks ! i) r c"
    unfolding all_less_3 using m[unfolded masks_ok_iff] ins s(3,4) by (simp add: inside_def)
  then have merge: "shadow_merge masks ?colors r c = Inr (?rgb, ?a)"
    using shadow_merge_eval[of masks r c color] by (simp add: Let_def layer_bytes_def)
  have "\<forall>k < 3. 0 \<le> ?rgb ! k \<and> ?rgb ! k \<le> 255"
    using shadow_merge_range[OF merge] by blast
  then have ok: "for_loop_E 0 3 (\<lambda>i u. if 0 \<le> ?rgb ! nat i \<and> ?rgb ! nat i \<le> 255 then Inr u
                          else Inl AssertionFailed) () = Inr ()"
    by (rule assert_loop_ok)
  let ?v = "eye_shadow_pixel b color ?al"
  have eq: "shadow_pixel b masks ?colors r c s = Mat_put CV_8UC4 s r c ?v"
    unfolding shadow_pixel_def merge sum.case prod.case ok
    by (simp add: eye_shadow_pixel_def Let_def)
  obtain s' where s': "Mat_put CV_8UC4 s r c ?v = Inr s'" "same_shape s' s" "px s' r c = ?v"
    "\<forall>r' c'. inside s r' c' \<longrightarrow> (r', c') \<noteq> (r, c) \<longrightarrow> px s' r' c' = px s r' c'"
    using Mat_put_ok[OF s(1,2) ins, of ?v] by blast
  have "\<forall>r' c'. inside s r' c' \<longrightarrow> px s' r' c' = (if (r', c') = (r, c) then ?v else px s r' c')"
    using s'(3,4) by auto
  then show ?thesis using eq s'(1,2) by auto
qed

lemma createEyeShadow_ok:
  assumes "masks_ok masks"
  shows "\<exists>bitmap. createEyeShadow b masks color = Inr bitmap
     \<and> rows bitmap = rows (masks ! 0) \<and> cols bitmap = cols (masks ! 0) \<and> mtype bitmap = CV_8UC4
     \<and> (\<forall>r c. inside bitmap r c \<longrightarrow>
           px bitmap r c = eye_shadow_pixel b color (layer_bytes masks r c))"
proof -
  let ?colors = "[unpack (color ! 0), unpack (color ! 1), unpack (color ! 2)]"
  define rows0 where "rows0 = rows (masks ! 0)"
  define cols0 where "cols0 = cols (masks ! 0)"
  define bitmap0 where "bitmap0 = \<lparr>rows = rows0, cols = cols0, mtype = CV_8UC4,
                    data = replicate (nat (rows0 * cols0)) [U8 0, U8 0, U8 0, U8 0]\<rparr>"
  have nn: "0 \<le> rows0" "0 \<le> cols0"
    using assms[unfolded masks_ok_iff] by (simp_all add: wf_Mat_def rows0_def cols0_def)
  have d0: "dims_ok bitmap0" using nn by (simp add: dims_ok_def bitmap0_def)
  have eq: "createEyeShadow b masks color =
      for_loop_E 0 rows0 (\<lambda>r. for_loop_E 0 cols0 (\<lambda>c. shadow_pixel b masks ?colors r c)) bitmap0"
    by (simp add: createEyeShadow_def Let_def rows0_def cols0_def bitmap0_def)
  have "\<exists>res. for_loop_E 0 rows0 (\<lambda>r. for_loop_E 0 cols0 (\<lambda>c. shadow_pixel b masks ?colors r c)) bitmap0
        = Inr res \<and> same_shape res bitmap0
     \<and> (\<forall>r c. inside bitmap0 r c \<longrightarrow> px res r c =
          (if 0 \<le> r \<and> r < rows0 \<and> 0 \<le> c \<and> c < cols0
           then eye_shadow_pixel b color (layer_bytes masks r c) else px bitmap0 r c))"
  proof (rule pixel_loops)
    show "0 \<le> rows0" "0 \<le> cols0" by (rule nn)+
  next
    fix r c s
    assume rc: "0 \<le> r" "r < rows0" "0 \<le> c" "c < cols0" and sh: "same_shape s bitmap0"
    have ds: "dims_ok s" using sh d0 by (rule same_shape_dims_ok)
    have st: "mtype s = CV_8UC4" "rows s = rows (masks ! 0)" "cols s = cols (masks ! 0)"
      using sh by (simp_all add: same_shape_def bitmap0_def rows0_def cols0_def)
    have ins: "inside s r c" using rc st by (simp add: inside_def rows0_def cols0_def)
    obtain s' where s': "shadow_pixel b masks ?colors r c s = Inr s'" "same_shape s' s"
      "\<forall>r' c'. inside s r' c' \<longrightarrow> px s' r' c' =
          (if (r', c') = (r, c) then eye_shadow_pixel b color (layer_bytes masks r c)
           else px s r' c')"
      using shadow_pixel_ok[OF assms ds st ins, of b color] by blast
    have "same_shape s' bitmap0" using s'(2) sh by (rule same_shape_trans)
    moreover have "\<forall>r' c'. inside bitmap0 r' c' \<longrightarrow> px s' r' c' =
          (if (r', c') = (r, c) then eye_shadow_pixel b color (layer_bytes masks r c)
           else px s r' c')"
      using s'(3) same_shape_inside[OF sh] by simp
    ultimately show "\<exists>s'. shadow_pixel b masks ?colors r c s = Inr s' \<and> same_shape s' bitmap0
        \<and> (\<forall>r' c'. inside bitmap0 r' c' \<longrightarrow> px s' r' c' =
          (if (r', c') = (r, c) then eye_shadow_pixel b color (layer_bytes masks r c)
           else px s r' c'))"
      using s'(1) by blast
  qed
  then obtain res where res: "createEyeShadow b masks color = Inr res" "same_shape res bitmap0"
    "\<forall>r c. inside bitmap0 r c \<longrightarrow> px res r c =
          (if 0 \<le> r \<and> r < rows0 \<and> 0 \<le> c \<and> c < cols0
           then eye_shadow_pixel b color (layer_bytes masks r c) else px bitmap0 r c)"
    using eq by auto
  have shp: "rows res = rows (masks ! 0)" "cols res = cols (masks ! 0)" "mtype res = CV_8UC4"
    using res(2) by (simp_all add: same_shape_def bitmap0_def rows0_def cols0_def)
  have "\<forall>r c. inside res r c \<longrightarrow> px res r c = eye_shadow_pixel b color (layer_bytes masks r c)"
  proof (intro allI impI)
    fix r c assume "inside res r c"
    then have i: "inside bitmap0 r c" using same_shape_inside[OF res(2)] by simp
    then have "0 \<le> r \<and> r < rows0 \<and> 0 \<le> c \<and> c < cols0" by (simp add: inside_def bitmap0_def)
    then show "px res r c = eye_shadow_pixel b color (layer_bytes masks r c)"
      using res(3) i by simp
  qed
  then show ?thesis using res(1) shp by blast
qed



text \<open>
  Claim C10. For all masks and colours, whenever the merge of a pixel is computed each of
  its three colour components lies in \<open>[0, 255]\<close>; \<open>createEyeShadow\<close> never fails the
  assertion on that range; and for three well-formed 8-bit masks of one size it returns a
  bitmap.
\<close>

theorem createEyeShadow_range:
  "(\<forall>rgb a. shadow_merge masks [unpack (color ! 0), unpack (color ! 1), unpack (color ! 2)] r c
        = Inr (rgb, a) \<longrightarrow> length rgb = 3 \<and> (\<forall>i < 3. 0 \<le> rgb ! i \<and> rgb ! i \<le> 255))
   \<and> createEyeShadow USE_BGRA_LAYOUT masks color \<noteq> Inl AssertionFailed
   \<and> (masks_ok masks \<longrightarrow> (\<exists>bitmap. createEyeShadow USE_BGRA_LAYOUT masks color = Inr bitmap))"
proof (intro conjI)
  show "\<forall>rgb a. shadow_merge masks [unpack (color ! 0), unpack (color ! 1), unpack (color ! 2)] r c
        = Inr (rgb, a) \<longrightarrow> length rgb = 3 \<and> (\<forall>i < 3. 0 \<le> rgb ! i \<and> rgb ! i \<le> 255)"
  proof (intro allI impI)
    fix rgb a
    assume "shadow_merge masks [unpack (color ! 0), unpack (color ! 1), unpack (color ! 2)] r c
        = Inr (rgb, a)"
    then show "length rgb = 3 \<and> (\<forall>i < 3. 0 \<le> rgb ! i \<and> rgb ! i \<le> 255)"
      by (rule shadow_merge_range)
  qed
next
  show "createEyeShadow USE_BGRA_LAYOUT masks color \<noteq> Inl AssertionFailed"
    by (rule createEyeShadow_not_assert)
next
  show "masks_ok masks \<longrightarrow> (\<exists>bitmap. createEyeShadow USE_BGRA_LAYOUT masks color = Inr bitmap)"
    using createEyeShadow_ok[of masks USE_BGRA_LAYOUT color] by blast
qed

text \<open>Masks 255, 255, 255 and white colours: the largest accumulated values.\<close>

theorem createEyeShadow_range_witness:
  "masks_ok [\<lparr>rows = 1, cols = 1, mtype = CV_8UC1, data = [[U8 255]]\<rparr>,
             \<lparr>rows = 1, cols = 1, mtype = CV_8UC1, data = [[U8 255]]\<rparr>,
             \<lparr>rows = 1, cols = 1, mtype = CV_8UC1, data = [[U8 255]]\<rparr>]
   \<and> (\<exists>bitmap. createEyeShadow False
          [\<lparr>rows = 1, cols = 1, mtype = CV_8UC1, data = [[U8 255]]\<rparr>,
           \<lparr>rows = 1, cols = 1, mtype = CV_8UC1, data = [[U8 255]]\<rparr>,
           \<lparr>rows = 1, cols = 1, mtype = CV_8UC1, data = [[U8 255]]\<rparr>]
          [0xFFFFFFFF, 0xFFFFFFFF, 0xFFFFFFFF] = Inr bitmap)
   \<and> (\<exists>rgb a. shadow_merge
          [\<lparr>rows = 1, cols = 1, mtype = CV_8UC1, data = [[U8 255]]\<rparr>,
           \<lparr>rows = 1, cols = 1, mtype = CV_8UC1, data = [[U8 255]]\<rparr>,
           \<lparr>rows = 1, cols = 1, mtype = CV_8UC1, data = [[U8 255]]\<rparr>]
          [unpack 0xFFFFFFFF, unpack 0xFFFFFFFF, unpack 0xFFFFFFFF] 0 0 = Inr (rgb, a)
        \<and> (\<forall>i < 3. 0 \<le> rgb ! i \<and> rgb ! i \<le> 255))"
proof -
  let ?M = "[\<lparr>rows = 1, cols = 1, mtype = CV_8UC1, data = [[U8 255]]\<rparr>,
             \<lparr>rows = 1, cols = 1, mtype = CV_8UC1, data = [[U8 255]]\<rparr>,
             \<lparr>rows = 1, cols = 1, mtype = CV_8UC1, data = [[U8 255]]\<rparr>]"
  let ?C = "[0xFFFFFFFF, 0xFFFFFFFF, 0xFFFFFFFF] :: uint32_t list"
  have ok: "masks_ok ?M" by (simp add: masks_ok_iff wf_Mat_def pixel_ok_def)
  note th = createEyeShadow_range[of ?M ?C 0 0 False]
  have a: "\<exists>bitmap. createEyeShadow False ?M ?C = Inr bitmap" using th ok by blast
  have "\<forall>i < 3. mtype (?M ! i) = CV_8UC1 \<and> inside (?M ! i) 0 0"
    by (simp add: all_less_3 inside_def)
  then obtain rgb a where m: "shadow_merge ?M [unpack (?C ! 0), unpack (?C ! 1), unpack (?C ! 2)] 0 0
      = Inr (rgb, a)"
    using shadow_merge_eval[of ?M 0 0 ?C] by (auto simp: Let_def)
  then have "\<forall>i < 3. 0 \<le> rgb ! i \<and> rgb ! i \<le> 255" using th by blast
  then have "\<exists>rgb a. shadow_merge ?M [unpack 0xFFFFFFFF, unpack 0xFFFFFFFF, unpack 0xFFFFFFFF] 0 0
      = Inr (rgb, a) \<and> (\<forall>i < 3. 0 \<le> rgb ! i \<and> rgb ! i \<le> 255)"
    using m by auto
  then show ?thesis using ok a by blast
qed

end
